theory Spec2Isabelle
  imports Main "HOL-Library.Word"
begin

unbundle bit_operations_syntax

section \<open>Turtle: a whitespace-tokenised arithmetic interpreter (src/src/main.go)\<close>

text \<open>
  The embedding follows \<^verbatim>\<open>main.go\<close> function by function. Go strings are byte
  sequences, so a Go \<^verbatim>\<open>string\<close> is a \<^typ>\<open>string\<close> (a list of 8-bit
  characters). Go's \<^verbatim>\<open>int\<close> is taken at its 64-bit width (amd64, arm64): a
  \<^typ>\<open>64 word\<close>, whose \<open>+\<close>, \<open>-\<close> and \<open>*\<close> wrap around as Go's do.
  A \<^verbatim>\<open>panic\<close> is a value of the type \<open>panic\<close>; a function that may panic
  returns \<open>panic + 'a\<close>. The lines written by \<^verbatim>\<open>fmt.Println\<close> are
  collected, in order, in the field \<open>stdout\<close> of the parser state: one signed integer
  per line.
\<close>

subsection \<open>Tokens and the lexer state\<close>

type_synonym go_int = "64 word"

record Token =
  Type :: string
  Value :: string

text \<open>
  Of the Go struct \<^verbatim>\<open>Lexer\<close> the field \<^verbatim>\<open>scanner\<close> is used only while
  \<^verbatim>\<open>NewLexer\<close> runs; the lines it delivers are the argument of \<open>NewLexer\<close> below.
\<close>

record Lexer =
  tokens :: "Token list"

datatype panic =
    DivisionByZero
  | FailedToParseNumber
  | UndefinedVariable string
  | ExpectedRParen
  | UnexpectedToken
  | IndexOutOfRange

subsection \<open>Library functions the lexer calls\<close>

text \<open>
  \<^verbatim>\<open>utf8.DecodeRune\<close>: the first code point of a byte sequence and its width in
  bytes; a malformed or truncated sequence decodes as \<open>RuneError\<close> with width 1, the
  empty sequence with width 0. The case distinction on the first byte is the table
  \<^verbatim>\<open>first\<close> of the Go library with its accept ranges for the second byte.
\<close>

definition RuneError :: nat where
  "RuneError = 0xFFFD"

definition byte :: "char \<Rightarrow> nat" where
  "byte c = of_char c"

definition acceptRange :: "nat \<Rightarrow> nat \<times> nat" where
  "acceptRange p0 =
     (if p0 = 0xE0 then (0xA0, 0xBF)
      else if p0 = 0xED then (0x80, 0x9F)
      else if p0 = 0xF0 then (0x90, 0xBF)
      else if p0 = 0xF4 then (0x80, 0x8F)
      else (0x80, 0xBF))"

definition DecodeRune :: "string \<Rightarrow> nat \<times> nat" where
  "DecodeRune p =
     (case p of
        [] \<Rightarrow> (RuneError, 0)
      | c0 # cs \<Rightarrow>
          let p0 = byte c0 in
          if p0 < 0x80 then (p0, 1)
          else if p0 < 0xC2 \<or> 0xF5 \<le> p0 then (RuneError, 1)
          else
            let sz = (if p0 < 0xE0 then 2 else if p0 < 0xF0 then 3 else 4 :: nat);
                lo = fst (acceptRange p0);
                hi = snd (acceptRange p0)
            in
            if length p < sz then (RuneError, 1)
            else
              let b1 = byte (p ! 1) in
              if b1 < lo \<or> hi < b1 then (RuneError, 1)
              else if sz \<le> 2 then (push_bit 6 (p0 AND 0x1F) OR (b1 AND 0x3F), 2)
              else
                let b2 = byte (p ! 2) in
                if b2 < 0x80 \<or> 0xBF < b2 then (RuneError, 1)
                else if sz \<le> 3 then
                  (push_bit 12 (p0 AND 0x0F) OR push_bit 6 (b1 AND 0x3F) OR (b2 AND 0x3F), 3)
                else
                  let b3 = byte (p ! 3) in
                  if b3 < 0x80 \<or> 0xBF < b3 then (RuneError, 1)
                  else
                    (push_bit 18 (p0 AND 0x07) OR push_bit 12 (b1 AND 0x3F)
                       OR push_bit 6 (b2 AND 0x3F) OR (b3 AND 0x3F), 4))"

text \<open>\<^verbatim>\<open>isSpace\<close> of package \<^verbatim>\<open>bufio\<close>: the separators of \<^verbatim>\<open>ScanWords\<close>.\<close>

definition isSpace :: "nat \<Rightarrow> bool" where
  "isSpace r =
     (if r \<le> 0xFF then
        r = 0x20 \<or> r = 0x09 \<or> r = 0x0A \<or> r = 0x0B \<or> r = 0x0C \<or> r = 0x0D
          \<or> r = 0x85 \<or> r = 0xA0
      else if 0x2000 \<le> r \<and> r \<le> 0x200A then True
      else r = 0x1680 \<or> r = 0x2028 \<or> r = 0x2029 \<or> r = 0x202F \<or> r = 0x205F \<or> r = 0x3000)"

lemma DecodeRune_width: "p \<noteq> [] \<Longrightarrow> 1 \<le> snd (DecodeRune p)"
  by (cases p) (simp_all add: DecodeRune_def Let_def)

lemma DecodeRune_drop: "p \<noteq> [] \<Longrightarrow> length p - snd (DecodeRune p) < length p"
  using DecodeRune_width [of p] by (cases p) simp_all

text \<open>
  \<^verbatim>\<open>bufio.ScanWords\<close> run by a \<^verbatim>\<open>bufio.Scanner\<close> over a whole line. Its first
  loop skips leading separators (\<open>skipSpaces\<close>); its second loop runs to the next
  separator or to the end of the data and yields the bytes before it as the word, the
  scan resuming after the separator (\<open>scanWord\<close>).
\<close>

function skipSpaces :: "string \<Rightarrow> string" where
  "skipSpaces data =
     (if data = [] then []
      else if isSpace (fst (DecodeRune data)) then skipSpaces (drop (snd (DecodeRune data)) data)
      else data)"
  by pat_completeness auto
termination
  by (relation "measure length") (simp_all add: DecodeRune_drop)

function scanWord :: "string \<Rightarrow> string \<times> string" where
  "scanWord data =
     (if data = [] then ([], [])
      else if isSpace (fst (DecodeRune data)) then ([], drop (snd (DecodeRune data)) data)
      else
        (take (snd (DecodeRune data)) data @ fst (scanWord (drop (snd (DecodeRune data)) data)),
         snd (scanWord (drop (snd (DecodeRune data)) data))))"
  by pat_completeness auto
termination
  by (relation "measure length") (simp_all add: DecodeRune_drop)

declare skipSpaces.simps [simp del] scanWord.simps [simp del]

lemma skipSpaces_length: "length (skipSpaces data) \<le> length data"
proof (induction data rule: skipSpaces.induct)
  case (1 data)
  show ?case
  proof (cases "data \<noteq> [] \<and> isSpace (fst (DecodeRune data))")
    case True
    with 1 have "length (skipSpaces (drop (snd (DecodeRune data)) data)) \<le> length data"
      by (simp add: le_diff_conv trans_le_add1)
    with True show ?thesis by (subst skipSpaces.simps) simp
  next
    case False
    then show ?thesis by (subst skipSpaces.simps) auto
  qed
qed

lemma scanWord_rest_length: "data \<noteq> [] \<Longrightarrow> length (snd (scanWord data)) < length data"
proof (induction data rule: scanWord.induct)
  case (1 data)
  let ?w = "snd (DecodeRune data)"
  from \<open>data \<noteq> []\<close> have w: "1 \<le> ?w" by (rule DecodeRune_width)
  with \<open>data \<noteq> []\<close> have shorter: "length (drop ?w data) < length data"
    by (cases data) simp_all
  show ?case
  proof (cases "isSpace (fst (DecodeRune data))")
    case True
    with \<open>data \<noteq> []\<close> shorter show ?thesis by (subst scanWord.simps) simp
  next
    case False
    show ?thesis
    proof (cases "drop ?w data = []")
      case True
      with False \<open>data \<noteq> []\<close> show ?thesis
        by (subst scanWord.simps) (simp add: scanWord.simps [of "[]"])
    next
      case nonempty: False
      with 1 False have "length (snd (scanWord (drop ?w data))) < length (drop ?w data)"
        by simp
      with shorter False \<open>data \<noteq> []\<close> show ?thesis
        by (subst scanWord.simps) simp
    qed
  qed
qed

function ScanWords :: "string \<Rightarrow> string list" where
  "ScanWords data =
     (if skipSpaces data = [] then []
      else fst (scanWord (skipSpaces data)) # ScanWords (snd (scanWord (skipSpaces data))))"
  by pat_completeness auto
termination
proof (relation "measure length")
  show "wf (measure length)" by simp
next
  fix data :: string
  assume "skipSpaces data \<noteq> []"
  then have "length (snd (scanWord (skipSpaces data))) < length (skipSpaces data)"
    by (rule scanWord_rest_length)
  also have "\<dots> \<le> length data" by (rule skipSpaces_length)
  finally show "(snd (scanWord (skipSpaces data)), data) \<in> measure length" by simp
qed

declare ScanWords.simps [simp del]

text \<open>
  \<^verbatim>\<open>strconv.Atoi\<close>: an optional sign, then one or more decimal digits and nothing
  else, the value within the range of \<^verbatim>\<open>int\<close>. \<open>None\<close> stands for a non-nil
  \<^verbatim>\<open>err\<close> (a syntax or a range error; the program only tests \<^verbatim>\<open>err == nil\<close>).
\<close>

fun digitsValue :: "int \<Rightarrow> string \<Rightarrow> int option" where
  "digitsValue n [] = Some n"
| "digitsValue n (c # cs) =
     (if 0x30 \<le> byte c \<and> byte c \<le> 0x39 then digitsValue (n * 10 + (int (byte c) - 0x30)) cs
      else None)"

definition Atoi :: "string \<Rightarrow> go_int option" where
  "Atoi s =
     (let neg = (s \<noteq> [] \<and> hd s = CHR ''-'');
          digits = (if s \<noteq> [] \<and> (hd s = CHR ''-'' \<or> hd s = CHR ''+'') then tl s else s)
      in
      if digits = [] then None
      else
        (case digitsValue 0 digits of
           None \<Rightarrow> None
         | Some n \<Rightarrow>
             if neg then (if n \<le> 2 ^ 63 then Some (word_of_int (- n)) else None)
             else (if n < 2 ^ 63 then Some (word_of_int n) else None)))"

text \<open>
  \<^verbatim>\<open>unicode.IsLetter\<close> on the runes up to U+00FF, the only ones that
  \<^verbatim>\<open>rune(tokenText[0])\<close>, the conversion of one byte, can produce: the Latin-1
  entries of the library's property table that carry a letter flag.
\<close>

definition IsLetter :: "nat \<Rightarrow> bool" where
  "IsLetter r =
     ((0x41 \<le> r \<and> r \<le> 0x5A) \<or> (0x61 \<le> r \<and> r \<le> 0x7A)
      \<or> r = 0xAA \<or> r = 0xB5 \<or> r = 0xBA
      \<or> (0xC0 \<le> r \<and> r \<le> 0xD6) \<or> (0xD8 \<le> r \<and> r \<le> 0xF6) \<or> (0xF8 \<le> r \<and> r \<le> 0xFF))"

subsection \<open>The lexer\<close>

text \<open>
  \<^verbatim>\<open>getTokenType\<close>. Indexing the empty string, \<^verbatim>\<open>tokenText[0]\<close>, panics in Go;
  the model returns \<open>IndexOutOfRange\<close> there.
\<close>

definition getTokenType :: "string \<Rightarrow> panic + string" where
  "getTokenType tokenText =
     (if tokenText = ''+'' then Inr ''PLUS''
      else if tokenText = ''-'' then Inr ''MINUS''
      else if tokenText = ''*'' then Inr ''MULTIPLY''
      else if tokenText = ''/'' then Inr ''DIVIDE''
      else if tokenText = ''='' then Inr ''ASSIGN''
      else if tokenText = ''('' then Inr ''LPAREN''
      else if tokenText = '')'' then Inr ''RPAREN''
      else if Atoi tokenText \<noteq> None then Inr ''NUMBER''
      else if tokenText = [] then Inl IndexOutOfRange
      else if IsLetter (byte (tokenText ! 0)) then Inr ''IDENT''
      else Inr ''UNKNOWN'')"

text \<open>The loop of \<^verbatim>\<open>tokenizeLine\<close> over the words of the line, appending one token each.\<close>

fun tokenizeWords :: "Token list \<Rightarrow> string list \<Rightarrow> panic + Token list" where
  "tokenizeWords toks [] = Inr toks"
| "tokenizeWords toks (tokenText # ws) =
     (case getTokenType tokenText of
        Inl e \<Rightarrow> Inl e
      | Inr tokenType \<Rightarrow> tokenizeWords (toks @ [\<lparr>Type = tokenType, Value = tokenText\<rparr>]) ws)"

definition tokenizeLine :: "string \<Rightarrow> panic + Token list" where
  "tokenizeLine line = tokenizeWords [] (ScanWords line)"

text \<open>
  \<^verbatim>\<open>tokenizeInput\<close>: the loop over the lines the line scanner delivers, appending each
  line's tokens to \<^verbatim>\<open>l.tokens\<close>.
\<close>

fun tokenizeInput :: "Lexer \<Rightarrow> string list \<Rightarrow> panic + Lexer" where
  "tokenizeInput l [] = Inr l"
| "tokenizeInput l (line # rest) =
     (case tokenizeLine line of
        Inl e \<Rightarrow> Inl e
      | Inr toks \<Rightarrow> tokenizeInput (l\<lparr>tokens := tokens l @ toks\<rparr>) rest)"

text \<open>
  \<^verbatim>\<open>NewLexer\<close>, from the lines its line scanner delivers for the opened file, in
  order, each without its line terminator and within the scanner's token size limit
  (opening the file and splitting it into lines are outside the model).
\<close>

definition NewLexer :: "string list \<Rightarrow> panic + Lexer" where
  "NewLexer lines = tokenizeInput \<lparr>tokens = []\<rparr> lines"

definition NextToken :: "Lexer \<Rightarrow> Token \<times> Lexer" where
  "NextToken l =
     (if length (tokens l) = 0 then (\<lparr>Type = ''EOF'', Value = ''''\<rparr>, l)
      else (tokens l ! 0, l\<lparr>tokens := drop 1 (tokens l)\<rparr>))"

subsection \<open>The parser and evaluator\<close>

text \<open>
  The Go struct \<^verbatim>\<open>Parser\<close>, with the lexer it points to held by value (no other
  reference to the lexer exists once \<^verbatim>\<open>NewParser\<close> has run), and the lines written
  to standard output so far.
\<close>

record Parser =
  lexer :: Lexer
  curToken :: Token
  variables :: "string \<rightharpoonup> go_int"
  stdout :: "int list"

text \<open>
  \<^verbatim>\<open>parseExpression\<close> has two \<^verbatim>\<open>return left\<close> statements: one inside the loop,
  taken when the token after a folded operand is \<^verbatim>\<open>RPAREN\<close>, and one after the loop.
  The loop's result is tagged with the one that produced it.
\<close>

datatype exit = ReturnInLoop | ReturnAfterLoop

definition consumeToken :: "Parser \<Rightarrow> Parser" where
  "consumeToken p = p\<lparr>curToken := fst (NextToken (lexer p)), lexer := snd (NextToken (lexer p))\<rparr>"

text \<open>
  Go's \<^verbatim>\<open>/\<close> on \<^verbatim>\<open>int\<close>: the quotient truncated towards zero, wrapped to 64
  bits (the one quotient out of range, that of the most negative value by \<open>-1\<close>, wraps to
  the most negative value).
\<close>

definition quo :: "int \<Rightarrow> int \<Rightarrow> int" where
  "quo x y = sgn x * sgn y * (\<bar>x\<bar> div \<bar>y\<bar>)"

definition go_div :: "go_int \<Rightarrow> go_int \<Rightarrow> go_int" where
  "go_div a b = word_of_int (quo (sint a) (sint b))"

definition isOperator :: "string \<Rightarrow> bool" where
  "isOperator t = (t = ''PLUS'' \<or> t = ''MINUS'' \<or> t = ''MULTIPLY'' \<or> t = ''DIVIDE'')"

definition applyOperator :: "string \<Rightarrow> go_int \<Rightarrow> go_int \<Rightarrow> panic + go_int" where
  "applyOperator operator left right =
     (if operator = ''PLUS'' then Inr (left + right)
      else if operator = ''MINUS'' then Inr (left - right)
      else if operator = ''MULTIPLY'' then Inr (left * right)
      else if operator = ''DIVIDE'' then
        (if right = 0 then Inl DivisionByZero else Inr (go_div left right))
      else Inr left)"

text \<open>
  \<^verbatim>\<open>parseExpression\<close> and \<^verbatim>\<open>parseTerm\<close>, with the \<^verbatim>\<open>for\<close> loop of
  \<^verbatim>\<open>parseExpression\<close> as \<open>exprLoop\<close>: its arguments are the accumulator
  \<^verbatim>\<open>left\<close> and the parser state at the loop head.
\<close>

function (domintros) parseExpression :: "Parser \<Rightarrow> panic + go_int \<times> Parser"
  and exprLoop :: "go_int \<Rightarrow> Parser \<Rightarrow> panic + exit \<times> go_int \<times> Parser"
  and parseTerm :: "Parser \<Rightarrow> panic + go_int \<times> Parser"
where
  "parseExpression p =
     (case parseTerm p of
        Inl e \<Rightarrow> Inl e
      | Inr (left, p1) \<Rightarrow>
          (case exprLoop left p1 of
             Inl e \<Rightarrow> Inl e
           | Inr (x, left', p2) \<Rightarrow> Inr (left', p2)))"
| "exprLoop left p =
     (if isOperator (Type (curToken p)) then
        (case parseTerm (consumeToken p) of
           Inl e \<Rightarrow> Inl e
         | Inr (right, p2) \<Rightarrow>
             (case applyOperator (Type (curToken p)) left right of
                Inl e \<Rightarrow> Inl e
              | Inr left' \<Rightarrow>
                  if Type (curToken p2) = ''RPAREN'' then Inr (ReturnInLoop, left', p2)
                  else exprLoop left' p2))
      else Inr (ReturnAfterLoop, left, p))"
| "parseTerm p =
     (if Type (curToken p) = ''NUMBER'' then
        (case Atoi (Value (curToken p)) of
           None \<Rightarrow> Inl FailedToParseNumber
         | Some number \<Rightarrow> Inr (number, consumeToken p))
      else if Type (curToken p) = ''IDENT'' then
        (case variables (consumeToken p) (Value (curToken p)) of
           None \<Rightarrow> Inl (UndefinedVariable (Value (curToken p)))
         | Some val \<Rightarrow> Inr (val, consumeToken p))
      else if Type (curToken p) = ''LPAREN'' then
        (case parseExpression (consumeToken p) of
           Inl e \<Rightarrow> Inl e
         | Inr (result, p1) \<Rightarrow>
             if Type (curToken p1) \<noteq> ''RPAREN'' then Inl ExpectedRParen
             else Inr (result, consumeToken p1))
      else Inl UnexpectedToken)"
  by pat_completeness auto

text \<open>
  Termination: the number of tokens not yet consumed, the current one included unless it
  is the end marker, never grows, and every successful \<^verbatim>\<open>parseTerm\<close> lowers it.
\<close>

definition remaining :: "Parser \<Rightarrow> nat" where
  "remaining p = length (tokens (lexer p)) + (if Type (curToken p) = ''EOF'' then 0 else 1)"

lemma remaining_consumeToken: "remaining (consumeToken p) \<le> remaining p"
  by (cases "tokens (lexer p)") (simp_all add: remaining_def consumeToken_def NextToken_def)

lemma remaining_consumeToken_less:
  "Type (curToken p) \<noteq> ''EOF'' \<Longrightarrow> remaining (consumeToken p) < remaining p"
  by (cases "tokens (lexer p)") (simp_all add: remaining_def consumeToken_def NextToken_def)

lemma isOperator_not_EOF: "isOperator t \<Longrightarrow> t \<noteq> ''EOF''"
  by (auto simp: isOperator_def)

lemma remaining_partial:
  "parseExpression_exprLoop_parseTerm_dom (Inl p) \<Longrightarrow>
     (\<forall>v p'. parseExpression p = Inr (v, p') \<longrightarrow> remaining p' < remaining p)"
  "parseExpression_exprLoop_parseTerm_dom (Inr (Inl (left, q))) \<Longrightarrow>
     (\<forall>x v p'. exprLoop left q = Inr (x, v, p') \<longrightarrow> remaining p' \<le> remaining q)"
  "parseExpression_exprLoop_parseTerm_dom (Inr (Inr r)) \<Longrightarrow>
     (\<forall>v p'. parseTerm r = Inr (v, p') \<longrightarrow> remaining p' < remaining r)"
proof (induction p and left q and r rule: parseExpression_exprLoop_parseTerm.pinduct)
  case (1 p)
  show ?case
  proof (intro allI impI)
    fix v p'
    assume res: "parseExpression p = Inr (v, p')"
    from res 1(1) obtain left p1 x where t: "parseTerm p = Inr (left, p1)"
      and l: "exprLoop left p1 = Inr (x, v, p')"
      by (auto simp: parseExpression.psimps split: sum.splits prod.splits)
    from 1(2) t have "remaining p1 < remaining p" by blast
    moreover from 1(3) [OF t refl] l have "remaining p' \<le> remaining p1" by blast
    ultimately show "remaining p' < remaining p" by simp
  qed
next
  case (2 left p)
  show ?case
  proof (intro allI impI)
    fix x v p'
    assume res: "exprLoop left p = Inr (x, v, p')"
    show "remaining p' \<le> remaining p"
    proof (cases "isOperator (Type (curToken p))")
      case False
      with res 2(1) show ?thesis by (simp add: exprLoop.psimps)
    next
      case True
      from res 2(1) True obtain right p2 left' where
        t: "parseTerm (consumeToken p) = Inr (right, p2)"
        and a: "applyOperator (Type (curToken p)) left right = Inr left'"
        and r: "if Type (curToken p2) = ''RPAREN'' then p' = p2
                else exprLoop left' p2 = Inr (x, v, p')"
        by (auto simp: exprLoop.psimps split: sum.splits prod.splits if_splits)
      from 2(2) [OF True] t have "remaining p2 < remaining (consumeToken p)" by blast
      then have p2: "remaining p2 \<le> remaining p"
        using remaining_consumeToken [of p] by simp
      show ?thesis
      proof (cases "Type (curToken p2) = ''RPAREN''")
        case True
        with r p2 show ?thesis by simp
      next
        case False
        with r have "exprLoop left' p2 = Inr (x, v, p')" by simp
        with 2(3) [OF True t refl a False] have "remaining p' \<le> remaining p2" by blast
        with p2 show ?thesis by simp
      qed
    qed
  qed
next
  case (3 p)
  show ?case
  proof (intro allI impI)
    fix v p'
    assume res: "parseTerm p = Inr (v, p')"
    consider (num) "Type (curToken p) = ''NUMBER''"
      | (ident) "Type (curToken p) \<noteq> ''NUMBER''" "Type (curToken p) = ''IDENT''"
      | (paren) "Type (curToken p) \<noteq> ''NUMBER''" "Type (curToken p) \<noteq> ''IDENT''"
          "Type (curToken p) = ''LPAREN''"
      | (other) "Type (curToken p) \<noteq> ''NUMBER''" "Type (curToken p) \<noteq> ''IDENT''"
          "Type (curToken p) \<noteq> ''LPAREN''"
      by blast
    then show "remaining p' < remaining p"
    proof cases
      case num
      with res 3(1) have "p' = consumeToken p"
        by (auto simp: parseTerm.psimps split: option.splits)
      with num show ?thesis by (simp add: remaining_consumeToken_less)
    next
      case ident
      with res 3(1) have "p' = consumeToken p"
        by (auto simp: parseTerm.psimps split: option.splits)
      with ident show ?thesis by (simp add: remaining_consumeToken_less)
    next
      case paren
      with res 3(1) obtain p1 where e: "parseExpression (consumeToken p) = Inr (v, p1)"
        and p': "p' = consumeToken p1"
        by (auto simp: parseTerm.psimps split: sum.splits prod.splits if_splits)
      from 3(2) [OF paren] e have "remaining p1 < remaining (consumeToken p)" by blast
      also have "\<dots> \<le> remaining p" by (rule remaining_consumeToken)
      finally show ?thesis using p' remaining_consumeToken [of p1] by simp
    next
      case other
      with res 3(1) show ?thesis by (simp add: parseTerm.psimps)
    qed
  qed
qed

termination parseExpression
proof (relation "measure (\<lambda>x. case x of
          Inl p \<Rightarrow> 3 * remaining p + 1
        | Inr (Inl (left, p)) \<Rightarrow> 3 * remaining p + 2
        | Inr (Inr p) \<Rightarrow> 3 * remaining p)", goal_cases)
  case 1
  show ?case by simp
next
  case (2 p)
  show ?case by simp
next
  case (3 p b x y)
  then have "remaining y < remaining p" using remaining_partial(3) [of p] by auto
  then show ?case by simp
next
  case (4 left p)
  then show ?case using remaining_consumeToken [of p] by simp
next
  case (5 left p b x y ba)
  then have "remaining y < remaining (consumeToken p)"
    using remaining_partial(3) [of "consumeToken p"] by auto
  then show ?case using remaining_consumeToken [of p] by simp
next
  case (6 p)
  then have "remaining (consumeToken p) < remaining p"
    by (simp add: remaining_consumeToken_less)
  then show ?case by simp
qed

declare parseExpression.simps [simp del] exprLoop.simps [simp del] parseTerm.simps [simp del]

definition evaluateExpression :: "Parser \<Rightarrow> string \<Rightarrow> panic + go_int" where
  "evaluateExpression p varName =
     (case variables p varName of
        None \<Rightarrow> Inl (UndefinedVariable varName)
      | Some val \<Rightarrow> Inr val)"

text \<open>\<^verbatim>\<open>fmt.Println\<close> of an \<^verbatim>\<open>int\<close>: one more line, the signed value in decimal.\<close>

definition Println :: "go_int \<Rightarrow> Parser \<Rightarrow> Parser" where
  "Println v p = p\<lparr>stdout := stdout p @ [sint v]\<rparr>"

definition parseStatement :: "Parser \<Rightarrow> panic + Parser" where
  "parseStatement p =
     (if Type (curToken p) = ''IDENT'' then
        let varName = Value (curToken p);
            p1 = consumeToken p
        in
        if Type (curToken p1) = ''ASSIGN'' then
          (case parseExpression (consumeToken p1) of
             Inl e \<Rightarrow> Inl e
           | Inr (val, p2) \<Rightarrow> Inr (p2\<lparr>variables := (variables p2)(varName \<mapsto> val)\<rparr>))
        else
          (case evaluateExpression p1 varName of
             Inl e \<Rightarrow> Inl e
           | Inr val \<Rightarrow> Inr (Println val p1))
      else
        (case parseExpression p of
           Inl e \<Rightarrow> Inl e
         | Inr (val, p1) \<Rightarrow> Inr (Println val p1)))"

text \<open>
  \<^verbatim>\<open>NewParser\<close>: the current token starts as Go's zero value and is primed at once.
\<close>

definition NewParser :: "Lexer \<Rightarrow> Parser" where
  "NewParser l =
     consumeToken \<lparr>lexer = l, curToken = \<lparr>Type = [], Value = []\<rparr>,
                   variables = Map.empty, stdout = []\<rparr>"

lemma parser_total:
  "parseExpression_exprLoop_parseTerm_dom (Inl p)"
  "parseExpression_exprLoop_parseTerm_dom (Inr (Inl (left, q)))"
  "parseExpression_exprLoop_parseTerm_dom (Inr (Inr r))"
  by (induction p and left q and r rule: parseExpression_exprLoop_parseTerm.induct)
     (auto intro: parseExpression_exprLoop_parseTerm.domintros)

lemma parseTerm_remaining: "parseTerm p = Inr (v, p') \<Longrightarrow> remaining p' < remaining p"
  using remaining_partial(3) [OF parser_total(3), of p] by simp

lemma parseExpression_remaining:
  "parseExpression p = Inr (v, p') \<Longrightarrow> remaining p' < remaining p"
  using remaining_partial(1) [OF parser_total(1), of p] by simp

lemma exprLoop_remaining:
  "exprLoop left p = Inr (x, v, p') \<Longrightarrow> remaining p' \<le> remaining p"
  using remaining_partial(2) [OF parser_total(2), of left p] by simp

lemma remaining_Println [simp]: "remaining (Println v p) = remaining p"
  by (simp add: remaining_def Println_def)

lemma remaining_variables_update [simp]: "remaining (p\<lparr>variables := m\<rparr>) = remaining p"
  by (simp add: remaining_def)

lemma parseStatement_remaining:
  assumes "parseStatement p = Inr p'"
  shows "remaining p' < remaining p"
proof (cases "Type (curToken p) = ''IDENT''")
  case True
  then have less: "remaining (consumeToken p) < remaining p"
    by (simp add: remaining_consumeToken_less)
  show ?thesis
  proof (cases "Type (curToken (consumeToken p)) = ''ASSIGN''")
    case assign: True
    with assms True obtain val p2 where
      e: "parseExpression (consumeToken (consumeToken p)) = Inr (val, p2)"
      and p': "p' = p2\<lparr>variables := (variables p2)(Value (curToken p) \<mapsto> val)\<rparr>"
      by (auto simp: parseStatement_def Let_def split: sum.splits prod.splits)
    from e have "remaining p2 < remaining (consumeToken (consumeToken p))"
      by (rule parseExpression_remaining)
    also have "\<dots> \<le> remaining (consumeToken p)" by (rule remaining_consumeToken)
    finally show ?thesis using less p' by simp
  next
    case False
    with assms True obtain val where "p' = Println val (consumeToken p)"
      by (auto simp: parseStatement_def Let_def split: sum.splits)
    with less show ?thesis by simp
  qed
next
  case False
  with assms obtain val p1 where e: "parseExpression p = Inr (val, p1)"
    and p': "p' = Println val p1"
    by (auto simp: parseStatement_def split: sum.splits prod.splits)
  from e have "remaining p1 < remaining p" by (rule parseExpression_remaining)
  with p' show ?thesis by simp
qed

text \<open>
  The statement loop of \<^verbatim>\<open>main\<close>: \<^verbatim>\<open>for { parser.parseStatement(); if
  parser.curToken.Type == "EOF" { break } }\<close>. It returns the lines written and the panic
  that ended the run, if one did. A statement writes its line as its last action, so a
  statement that panics has written nothing.
\<close>

function mainLoop :: "Parser \<Rightarrow> int list \<times> panic option" where
  "mainLoop p =
     (case parseStatement p of
        Inl e \<Rightarrow> (stdout p, Some e)
      | Inr p' \<Rightarrow> if Type (curToken p') = ''EOF'' then (stdout p', None) else mainLoop p')"
  by pat_completeness auto
termination
  by (relation "measure remaining") (simp_all add: parseStatement_remaining)

declare mainLoop.simps [simp del]

text \<open>
  \<^verbatim>\<open>main\<close>, from the lines of the input file (the argument check and the opening of
  the file are outside the model).
\<close>

definition main :: "string list \<Rightarrow> int list \<times> panic option" where
  "main lines =
     (case NewLexer lines of
        Inl e \<Rightarrow> ([], Some e)
      | Inr l \<Rightarrow> mainLoop (NewParser l))"

subsection \<open>Reference definitions for the properties\<close>

text \<open>
  The end marker \<^verbatim>\<open>Token{Type: "EOF", Value: ""}\<close>, and \<open>feed p ts\<close>: the parser \<open>p\<close>
  with the token sequence \<open>ts\<close> ahead of it, primed as \<^verbatim>\<open>NewParser\<close> primes it (the first
  token current, the others in the lexer). Every parser state is of this form
  (\<open>feed_self\<close> below).
\<close>

definition EOF :: Token where
  "EOF = \<lparr>Type = ''EOF'', Value = ''''\<rparr>"

definition feed :: "Parser \<Rightarrow> Token list \<Rightarrow> Parser" where
  "feed p ts = consumeToken (p\<lparr>lexer := \<lparr>tokens = ts\<rparr>\<rparr>)"

text \<open>
  The grammar of the specification,
  \<^verbatim>\<open>expression := term ((PLUS|MINUS|STAR|SLASH) term)*\<close> and
  \<^verbatim>\<open>term := NUMBER | IDENTIFIER | LPAREN expression RPAREN\<close>,
  as syntax trees; the tokens a tree is written with; and the value the specification
  gives it: operands from left to right, each operator folded into the accumulator as it
  is met, a parenthesised group evaluated as a whole where it stands.
\<close>

datatype binop = Add | Sub | Mul | Div

datatype trm = Number string | Identifier string | Parens expr
  and expr = Expr trm ops
  and ops = NoMore | More binop trm ops

fun opToken :: "binop \<Rightarrow> Token" where
  "opToken Add = \<lparr>Type = ''PLUS'', Value = ''+''\<rparr>"
| "opToken Sub = \<lparr>Type = ''MINUS'', Value = ''-''\<rparr>"
| "opToken Mul = \<lparr>Type = ''MULTIPLY'', Value = ''*''\<rparr>"
| "opToken Div = \<lparr>Type = ''DIVIDE'', Value = ''/''\<rparr>"

definition numberToken :: "string \<Rightarrow> Token" where
  "numberToken s = \<lparr>Type = ''NUMBER'', Value = s\<rparr>"

definition identToken :: "string \<Rightarrow> Token" where
  "identToken s = \<lparr>Type = ''IDENT'', Value = s\<rparr>"

definition LPAREN :: Token where
  "LPAREN = \<lparr>Type = ''LPAREN'', Value = ''(''\<rparr>"

definition RPAREN :: Token where
  "RPAREN = \<lparr>Type = ''RPAREN'', Value = '')''\<rparr>"

fun termTokens :: "trm \<Rightarrow> Token list"
  and exprTokens :: "expr \<Rightarrow> Token list"
  and opsTokens :: "ops \<Rightarrow> Token list"
where
  "termTokens (Number s) = [numberToken s]"
| "termTokens (Identifier x) = [identToken x]"
| "termTokens (Parens e) = LPAREN # exprTokens e @ [RPAREN]"
| "exprTokens (Expr t os) = termTokens t @ opsTokens os"
| "opsTokens NoMore = []"
| "opsTokens (More b t os) = opToken b # termTokens t @ opsTokens os"

fun binopValue :: "binop \<Rightarrow> go_int \<Rightarrow> go_int \<Rightarrow> panic + go_int" where
  "binopValue Add l r = Inr (l + r)"
| "binopValue Sub l r = Inr (l - r)"
| "binopValue Mul l r = Inr (l * r)"
| "binopValue Div l r = (if r = 0 then Inl DivisionByZero else Inr (go_div l r))"

fun termValue :: "(string \<rightharpoonup> go_int) \<Rightarrow> trm \<Rightarrow> panic + go_int"
  and exprValue :: "(string \<rightharpoonup> go_int) \<Rightarrow> expr \<Rightarrow> panic + go_int"
  and opsValue :: "(string \<rightharpoonup> go_int) \<Rightarrow> go_int \<Rightarrow> ops \<Rightarrow> panic + go_int"
where
  "termValue env (Number s) =
     (case Atoi s of None \<Rightarrow> Inl FailedToParseNumber | Some n \<Rightarrow> Inr n)"
| "termValue env (Identifier x) =
     (case env x of None \<Rightarrow> Inl (UndefinedVariable x) | Some v \<Rightarrow> Inr v)"
| "termValue env (Parens e) = exprValue env e"
| "exprValue env (Expr t os) =
     (case termValue env t of Inl e \<Rightarrow> Inl e | Inr v \<Rightarrow> opsValue env v os)"
| "opsValue env acc NoMore = Inr acc"
| "opsValue env acc (More b t os) =
     (case termValue env t of
        Inl e \<Rightarrow> Inl e
      | Inr r \<Rightarrow>
          (case binopValue b acc r of
             Inl e \<Rightarrow> Inl e
           | Inr acc' \<Rightarrow> opsValue env acc' os))"

text \<open>
  A statement of integer literals only: the first literal and then operators with one
  literal each, every literal as its text and the integer it denotes; and the left-to-right
  fold of the operators over the integers, in source order.
\<close>

fun literalTokens :: "(binop \<times> string \<times> go_int) list \<Rightarrow> Token list" where
  "literalTokens [] = []"
| "literalTokens ((b, s, n) # rest) = opToken b # numberToken s # literalTokens rest"

fun leftFold :: "go_int \<Rightarrow> (binop \<times> string \<times> go_int) list \<Rightarrow> panic + go_int" where
  "leftFold acc [] = Inr acc"
| "leftFold acc ((b, s, n) # rest) =
     (case binopValue b acc n of Inl e \<Rightarrow> Inl e | Inr acc' \<Rightarrow> leftFold acc' rest)"

text \<open>A token sequence at which the operator loop stops: empty or not led by an operator.\<close>

definition stops :: "Token list \<Rightarrow> bool" where
  "stops ts = (case ts of [] \<Rightarrow> True | t # _ \<Rightarrow> \<not> isOperator (Type t))"

text \<open>
  The letters among the one-byte (ASCII) characters, for the words whose first character
  is one byte long.
\<close>

definition asciiLetter :: "char \<Rightarrow> bool" where
  "asciiLetter c = ((0x41 \<le> byte c \<and> byte c \<le> 0x5A) \<or> (0x61 \<le> byte c \<and> byte c \<le> 0x7A))"

section \<open>Properties\<close>

subsection \<open>Auxiliary facts\<close>

lemma feed_Nil: "feed p [] = p\<lparr>curToken := EOF, lexer := \<lparr>tokens = []\<rparr>\<rparr>"
  by (simp add: feed_def consumeToken_def NextToken_def EOF_def)

lemma feed_Cons: "feed p (t # ts) = p\<lparr>curToken := t, lexer := \<lparr>tokens = ts\<rparr>\<rparr>"
  by (simp add: feed_def consumeToken_def NextToken_def)

lemma feed_self: "feed p (curToken p # tokens (lexer p)) = p"
  by (simp add: feed_Cons)

lemma curToken_feed_Cons [simp]: "curToken (feed p (t # ts)) = t"
  by (simp add: feed_Cons)

lemma curToken_feed_Nil [simp]: "curToken (feed p []) = EOF"
  by (simp add: feed_Nil)

lemma consumeToken_feed [simp]: "consumeToken (feed p (t # ts)) = feed p ts"
  by (simp add: feed_def consumeToken_def NextToken_def)

lemma variables_feed [simp]: "variables (feed p ts) = variables p"
  by (simp add: feed_def consumeToken_def)

lemma stdout_feed [simp]: "stdout (feed p ts) = stdout p"
  by (simp add: feed_def consumeToken_def)

lemma feed_feed [simp]: "feed (feed p ts) us = feed p us"
  by (simp add: feed_def consumeToken_def)

lemma NewParser_feed:
  "NewParser \<lparr>tokens = ts\<rparr> =
     feed \<lparr>lexer = \<lparr>tokens = []\<rparr>, curToken = EOF, variables = Map.empty, stdout = []\<rparr> ts"
  by (simp add: NewParser_def feed_def consumeToken_def)

text \<open>Parsing an expression changes neither the variables nor the output.\<close>

lemma frame:
  "\<forall>v p'. parseExpression p = Inr (v, p') \<longrightarrow> variables p' = variables p \<and> stdout p' = stdout p"
  "\<forall>x v p'. exprLoop left q = Inr (x, v, p') \<longrightarrow> variables p' = variables q \<and> stdout p' = stdout q"
  "\<forall>v p'. parseTerm r = Inr (v, p') \<longrightarrow> variables p' = variables r \<and> stdout p' = stdout r"
proof (induction p and left q and r rule: parseExpression_exprLoop_parseTerm.induct)
  case (1 p)
  show ?case
  proof (intro allI impI)
    fix v p'
    assume res: "parseExpression p = Inr (v, p')"
    then obtain left p1 x where t: "parseTerm p = Inr (left, p1)"
      and l: "exprLoop left p1 = Inr (x, v, p')"
      by (auto simp: parseExpression.simps [of p] split: sum.splits prod.splits)
    from 1(1) t have "variables p1 = variables p \<and> stdout p1 = stdout p" by blast
    moreover from 1(2) [OF t refl] l have "variables p' = variables p1 \<and> stdout p' = stdout p1"
      by blast
    ultimately show "variables p' = variables p \<and> stdout p' = stdout p" by simp
  qed
next
  case (2 left p)
  show ?case
  proof (intro allI impI)
    fix x v p'
    assume res: "exprLoop left p = Inr (x, v, p')"
    show "variables p' = variables p \<and> stdout p' = stdout p"
    proof (cases "isOperator (Type (curToken p))")
      case False
      with res show ?thesis by (simp add: exprLoop.simps [of left p])
    next
      case True
      from res True obtain right p2 left' where
        t: "parseTerm (consumeToken p) = Inr (right, p2)"
        and a: "applyOperator (Type (curToken p)) left right = Inr left'"
        and r: "if Type (curToken p2) = ''RPAREN'' then p' = p2
                else exprLoop left' p2 = Inr (x, v, p')"
        by (auto simp: exprLoop.simps [of left p] split: sum.splits prod.splits if_splits)
      from 2(1) [OF True] t have p2: "variables p2 = variables p \<and> stdout p2 = stdout p"
        by (simp add: consumeToken_def)
      show ?thesis
      proof (cases "Type (curToken p2) = ''RPAREN''")
        case True
        with r p2 show ?thesis by simp
      next
        case False
        with r have "exprLoop left' p2 = Inr (x, v, p')" by simp
        with 2(2) [OF True t refl a False] p2 show ?thesis by simp
      qed
    qed
  qed
next
  case (3 p)
  show ?case
  proof (intro allI impI)
    fix v p'
    assume res: "parseTerm p = Inr (v, p')"
    consider (num) "Type (curToken p) = ''NUMBER''"
      | (ident) "Type (curToken p) \<noteq> ''NUMBER''" "Type (curToken p) = ''IDENT''"
      | (paren) "Type (curToken p) \<noteq> ''NUMBER''" "Type (curToken p) \<noteq> ''IDENT''"
          "Type (curToken p) = ''LPAREN''"
      | (other) "Type (curToken p) \<noteq> ''NUMBER''" "Type (curToken p) \<noteq> ''IDENT''"
          "Type (curToken p) \<noteq> ''LPAREN''"
      by blast
    then show "variables p' = variables p \<and> stdout p' = stdout p"
    proof cases
      case num
      with res have "p' = consumeToken p"
        by (auto simp: parseTerm.simps [of p] split: option.splits)
      then show ?thesis by (simp add: consumeToken_def)
    next
      case ident
      with res have "p' = consumeToken p"
        by (auto simp: parseTerm.simps [of p] split: option.splits)
      then show ?thesis by (simp add: consumeToken_def)
    next
      case paren
      with res obtain p1 where e: "parseExpression (consumeToken p) = Inr (v, p1)"
        and p': "p' = consumeToken p1"
        by (auto simp: parseTerm.simps [of p] split: sum.splits prod.splits if_splits)
      from 3 [OF paren] e have "variables p1 = variables p \<and> stdout p1 = stdout p"
        by (simp add: consumeToken_def)
      with p' show ?thesis by (simp add: consumeToken_def)
    next
      case other
      with res show ?thesis by (simp add: parseTerm.simps [of p])
    qed
  qed
qed

text \<open>One step of the parser on a state with a known first token.\<close>

lemma isOperator_opToken [simp]: "isOperator (Type (opToken b))"
  by (cases b) (simp_all add: isOperator_def)

lemma applyOperator_opToken [simp]: "applyOperator (Type (opToken b)) l r = binopValue b l r"
  by (cases b) (simp_all add: applyOperator_def)

lemma opToken_not_RPAREN [simp]: "Type (opToken b) \<noteq> ''RPAREN''"
  by (cases b) simp_all

lemma parseTerm_number:
  "parseTerm (feed p (numberToken s # ts)) =
     (case Atoi s of None \<Rightarrow> Inl FailedToParseNumber | Some n \<Rightarrow> Inr (n, feed p ts))"
  by (subst parseTerm.simps) (simp add: numberToken_def split: option.splits)

lemma parseTerm_ident:
  "parseTerm (feed p (identToken x # ts)) =
     (case variables p x of None \<Rightarrow> Inl (UndefinedVariable x) | Some v \<Rightarrow> Inr (v, feed p ts))"
  by (subst parseTerm.simps) (simp add: identToken_def split: option.splits)

lemma parseTerm_lparen:
  "parseTerm (feed p (LPAREN # ts)) =
     (case parseExpression (feed p ts) of
        Inl e \<Rightarrow> Inl e
      | Inr (v, p1) \<Rightarrow>
          if Type (curToken p1) \<noteq> ''RPAREN'' then Inl ExpectedRParen
          else Inr (v, consumeToken p1))"
  by (subst parseTerm.simps) (simp add: LPAREN_def split: sum.splits prod.splits)

lemma exprLoop_not_operator:
  "\<not> isOperator (Type (curToken q)) \<Longrightarrow> exprLoop acc q = Inr (ReturnAfterLoop, acc, q)"
  by (simp add: exprLoop.simps [of acc q])

lemma exprLoop_stops:
  "stops ts \<Longrightarrow> exprLoop acc (feed p ts) = Inr (ReturnAfterLoop, acc, feed p ts)"
  by (cases ts) (simp_all add: stops_def exprLoop_not_operator EOF_def isOperator_def)

lemma exprLoop_operator:
  "exprLoop acc (feed p (opToken b # ts)) =
     (case parseTerm (feed p ts) of
        Inl e \<Rightarrow> Inl e
      | Inr (r, p2) \<Rightarrow>
          (case binopValue b acc r of
             Inl e \<Rightarrow> Inl e
           | Inr acc' \<Rightarrow>
               if Type (curToken p2) = ''RPAREN'' then Inr (ReturnInLoop, acc', p2)
               else exprLoop acc' p2))"
  by (subst exprLoop.simps) (simp split: sum.splits prod.splits)

lemma exprLoop_value_at_RPAREN:
  "map_sum (\<lambda>e. e) snd (if Type (curToken q) = ''RPAREN'' then Inr (ReturnInLoop, a, q) else exprLoop a q)
     = map_sum (\<lambda>e. e) snd (exprLoop a q)"
  by (simp add: exprLoop_not_operator isOperator_def)

lemma parseExpression_value:
  "parseExpression p =
     (case parseTerm p of Inl e \<Rightarrow> Inl e | Inr (left, p1) \<Rightarrow> map_sum (\<lambda>e. e) snd (exprLoop left p1))"
  by (simp add: parseExpression.simps [of p] split: sum.splits prod.splits)

lemma exprLoop_operator_value:
  "map_sum (\<lambda>e. e) snd (exprLoop acc (feed p (opToken b # ts))) =
     (case parseTerm (feed p ts) of
        Inl e \<Rightarrow> Inl e
      | Inr (r, p2) \<Rightarrow>
          (case binopValue b acc r of
             Inl e \<Rightarrow> Inl e
           | Inr acc' \<Rightarrow> map_sum (\<lambda>e. e) snd (exprLoop acc' p2)))"
  using exprLoop_value_at_RPAREN
  by (simp add: exprLoop_operator split: sum.splits prod.splits)

text \<open>
  The parser computes the value the grammar gives: on the tokens of a term followed by
  anything, \<^verbatim>\<open>parseTerm\<close> returns the term's value and stops after the term; on the
  tokens of an expression followed by a sequence at which the loop stops,
  \<^verbatim>\<open>parseExpression\<close> returns the expression's value and stops after it.
\<close>

lemma parser_refines_grammar:
  "\<forall>p rest. parseTerm (feed p (termTokens t @ rest)) =
      (case termValue (variables p) t of Inl e \<Rightarrow> Inl e | Inr v \<Rightarrow> Inr (v, feed p rest))"
  "\<forall>p rest. stops rest \<longrightarrow> parseExpression (feed p (exprTokens e @ rest)) =
      (case exprValue (variables p) e of Inl e \<Rightarrow> Inl e | Inr v \<Rightarrow> Inr (v, feed p rest))"
  "\<forall>p acc rest. stops rest \<longrightarrow> map_sum (\<lambda>e. e) snd (exprLoop acc (feed p (opsTokens os @ rest))) =
      (case opsValue (variables p) acc os of Inl e \<Rightarrow> Inl e | Inr v \<Rightarrow> Inr (v, feed p rest))"
proof (induction t and e and os)
  case (Number s)
  show ?case by (simp add: parseTerm_number split: option.splits)
next
  case (Identifier x)
  show ?case by (simp add: parseTerm_ident split: option.splits)
next
  case (Parens e)
  show ?case
  proof (intro allI)
    fix p rest
    have "stops (RPAREN # rest)" by (simp add: stops_def RPAREN_def isOperator_def)
    with Parens have "parseExpression (feed p (exprTokens e @ RPAREN # rest)) =
      (case exprValue (variables p) e of Inl e \<Rightarrow> Inl e | Inr v \<Rightarrow> Inr (v, feed p (RPAREN # rest)))"
      by blast
    then show "parseTerm (feed p (termTokens (Parens e) @ rest)) =
      (case termValue (variables p) (Parens e) of Inl e \<Rightarrow> Inl e | Inr v \<Rightarrow> Inr (v, feed p rest))"
      by (simp add: parseTerm_lparen RPAREN_def split: sum.splits)
  qed
next
  case (Expr t os)
  show ?case
  proof (intro allI impI)
    fix p rest
    assume "stops rest"
    with Expr(2) have loop: "\<And>acc. map_sum (\<lambda>e. e) snd (exprLoop acc (feed p (opsTokens os @ rest))) =
      (case opsValue (variables p) acc os of Inl e \<Rightarrow> Inl e | Inr v \<Rightarrow> Inr (v, feed p rest))"
      by blast
    from Expr(1) have "parseTerm (feed p (termTokens t @ opsTokens os @ rest)) =
      (case termValue (variables p) t of Inl e \<Rightarrow> Inl e
       | Inr v \<Rightarrow> Inr (v, feed p (opsTokens os @ rest)))"
      by blast
    then show "parseExpression (feed p (exprTokens (Expr t os) @ rest)) =
      (case exprValue (variables p) (Expr t os) of Inl e \<Rightarrow> Inl e | Inr v \<Rightarrow> Inr (v, feed p rest))"
      by (simp add: parseExpression_value loop split: sum.splits)
  qed
next
  case NoMore
  show ?case by (simp add: exprLoop_stops)
next
  case (More b t os)
  show ?case
  proof (intro allI impI)
    fix p acc rest
    assume "stops rest"
    with More(2) have loop: "\<And>acc. map_sum (\<lambda>e. e) snd (exprLoop acc (feed p (opsTokens os @ rest))) =
      (case opsValue (variables p) acc os of Inl e \<Rightarrow> Inl e | Inr v \<Rightarrow> Inr (v, feed p rest))"
      by blast
    from More(1) have "parseTerm (feed p (termTokens t @ opsTokens os @ rest)) =
      (case termValue (variables p) t of Inl e \<Rightarrow> Inl e
       | Inr v \<Rightarrow> Inr (v, feed p (opsTokens os @ rest)))"
      by blast
    then show "map_sum (\<lambda>e. e) snd (exprLoop acc (feed p (opsTokens (More b t os) @ rest))) =
      (case opsValue (variables p) acc (More b t os) of Inl e \<Rightarrow> Inl e
       | Inr v \<Rightarrow> Inr (v, feed p rest))"
      by (simp add: exprLoop_operator_value loop split: sum.splits)
  qed
qed

text \<open>Evaluating the lexer and the parser on a concrete input.\<close>

lemmas lexer_eval = tokenizeLine_def ScanWords.simps skipSpaces.simps scanWord.simps
  DecodeRune_def byte_def isSpace_def getTokenType_def Atoi_def NewLexer_def Let_def IsLetter_def

lemmas parser_eval = main_def mainLoop.simps parseStatement_def parseExpression.simps
  exprLoop.simps parseTerm.simps consumeToken_def NextToken_def NewParser_def isOperator_def
  applyOperator_def go_div_def quo_def Println_def evaluateExpression_def

lemma exprLoop_literals:
  assumes "\<forall>(b, s, n) \<in> set lits. Atoi s = Some n" and "stops rest"
  shows "map_sum (\<lambda>e. e) snd (exprLoop acc (feed p (literalTokens lits @ rest))) =
           (case leftFold acc lits of Inl e \<Rightarrow> Inl e | Inr v \<Rightarrow> Inr (v, feed p rest))"
  using assms
proof (induction lits arbitrary: acc)
  case Nil
  then show ?case by (simp add: exprLoop_stops)
next
  case (Cons l lits)
  obtain b s n where l: "l = (b, s, n)" by (cases l)
  with Cons.prems have s: "Atoi s = Some n" by simp
  from Cons.prems have "\<forall>(b, s, n) \<in> set lits. Atoi s = Some n" by simp
  note IH = Cons.IH [OF this \<open>stops rest\<close>]
  show ?case
    by (simp add: l exprLoop_operator_value parseTerm_number s IH split: sum.splits)
qed

lemma NextToken_iterate:
  "tokens (((snd \<circ> NextToken) ^^ k) l) = drop k (tokens l)"
proof (induction k)
  case 0
  show ?case by simp
next
  case (Suc k)
  then show ?case
    by (cases "drop k (tokens l)") (simp_all add: NextToken_def drop_Suc drop_tl tl_drop)
qed

subsection \<open>Flat left-to-right evaluation\<close>

text \<open>
  C1. A statement that consists of integer literals joined by \<open>+ - * /\<close>, without
  parentheses, prints the left-to-right fold of its operators in source order, with no
  precedence among them (or panics where the fold divides by zero); the statement ends
  where the next token is not an operator. The input \<^verbatim>\<open>2 + 3 * 4\<close> prints 20.
\<close>

theorem flat_statement_is_left_fold:
  assumes "Atoi s0 = Some n0"
    and "\<forall>(b, s, n) \<in> set lits. Atoi s = Some n"
    and "stops rest"
  shows "parseStatement (feed p (numberToken s0 # literalTokens lits @ rest)) =
           (case leftFold n0 lits of
              Inl e \<Rightarrow> Inl e
            | Inr v \<Rightarrow> Inr (Println v (feed p rest)))
         \<and> main [''2 + 3 * 4''] = ([20], None)"
proof
  have "parseExpression (feed p (numberToken s0 # literalTokens lits @ rest)) =
          (case leftFold n0 lits of Inl e \<Rightarrow> Inl e | Inr v \<Rightarrow> Inr (v, feed p rest))"
    using assms by (simp add: parseExpression_value parseTerm_number exprLoop_literals)
  then show "parseStatement (feed p (numberToken s0 # literalTokens lits @ rest)) =
           (case leftFold n0 lits of
              Inl e \<Rightarrow> Inl e
            | Inr v \<Rightarrow> Inr (Println v (feed p rest)))"
    by (simp add: parseStatement_def numberToken_def split: sum.splits)
next
  show "main [''2 + 3 * 4''] = ([20], None)"
    by (simp add: lexer_eval parser_eval)
qed

theorem flat_statement_is_left_fold_witness:
  "Atoi ''2'' = Some 2 \<and> Atoi ''3'' = Some 3 \<and> Atoi ''4'' = Some 4
   \<and> stops []
   \<and> parseStatement (feed (NewParser \<lparr>tokens = []\<rparr>)
        (numberToken ''2'' # literalTokens [(Add, ''3'', 3), (Mul, ''4'', 4)] @ []))
      = Inr (Println 20 (feed (NewParser \<lparr>tokens = []\<rparr>) []))"
proof -
  have h1: "Atoi ''2'' = Some 2" by (simp add: Atoi_def byte_def)
  have h2: "\<forall>(b, s, n) \<in> set [(Add, ''3'', 3), (Mul, ''4'', 4)]. Atoi s = Some n"
    by (simp add: Atoi_def byte_def)
  have h3: "stops []" by (simp add: stops_def)
  show ?thesis
    using h1 h2 h3
      flat_statement_is_left_fold [OF h1 h2 h3, of "NewParser \<lparr>tokens = []\<rparr>"]
    by simp
qed

subsection \<open>The exhausted token stream\<close>

text \<open>
  C9. Once as many tokens have been taken as the stream held, every further call of
  \<^verbatim>\<open>NextToken\<close> returns the end marker and leaves the stream empty; \<open>NextToken\<close> is a
  total function, so no call fails.
\<close>

theorem NextToken_after_exhaustion:
  assumes "length (tokens l) \<le> k"
  shows "NextToken (((snd \<circ> NextToken) ^^ k) l)
           = (\<lparr>Type = ''EOF'', Value = ''''\<rparr>, \<lparr>tokens = []\<rparr>)"
proof -
  from assms have "tokens (((snd \<circ> NextToken) ^^ k) l) = []"
    by (simp add: NextToken_iterate)
  then show ?thesis by (simp add: NextToken_def)
qed

theorem NextToken_after_exhaustion_witness:
  "length (tokens \<lparr>tokens = [\<lparr>Type = ''NUMBER'', Value = ''7''\<rparr>]\<rparr>) \<le> 3
   \<and> NextToken (((snd \<circ> NextToken) ^^ 3) \<lparr>tokens = [\<lparr>Type = ''NUMBER'', Value = ''7''\<rparr>]\<rparr>)
       = (\<lparr>Type = ''EOF'', Value = ''''\<rparr>, \<lparr>tokens = []\<rparr>)"
  using NextToken_after_exhaustion [of "\<lparr>tokens = [\<lparr>Type = ''NUMBER'', Value = ''7''\<rparr>]\<rparr>" 3]
  by simp

subsection \<open>The statement loop on an input without tokens\<close>

text \<open>
  C4. The statement loop tests for the end marker only after a statement has been parsed.
  On an input without tokens (no line, or blank lines only) the first
  \<^verbatim>\<open>parseStatement\<close> meets the end marker where a term is required, and the run ends
  in the panic \<^verbatim>\<open>Unexpected token\<close>, not normally.
\<close>

theorem empty_input_panics:
  "main [] = ([], Some UnexpectedToken)
   \<and> main ['''', ''   '', ''''] = ([], Some UnexpectedToken)
   \<and> NewLexer ['''', ''   '', ''''] = Inr \<lparr>tokens = []\<rparr>"
  by (simp add: lexer_eval parser_eval)

subsection \<open>Reading an unbound variable\<close>

text \<open>
  C6. Reading an identifier that has no binding panics with \<^verbatim>\<open>Undefined variable\<close> and
  the identifier's name, wherever it is read: as a term (the first of an expression or the
  operand after an operator) and as a statement of its own. No name is bound when the
  parser is created. The inputs \<^verbatim>\<open>x\<close> and \<^verbatim>\<open>1 + x\<close> end so.
\<close>

theorem undefined_variable_read:
  "(Type (curToken p) = ''IDENT'' \<and> variables p (Value (curToken p)) = None
      \<longrightarrow> parseTerm p = Inl (UndefinedVariable (Value (curToken p)))
        \<and> parseExpression p = Inl (UndefinedVariable (Value (curToken p))))
   \<and> (isOperator (Type (curToken p)) \<and> Type (curToken (consumeToken p)) = ''IDENT''
        \<and> variables p (Value (curToken (consumeToken p))) = None
      \<longrightarrow> exprLoop left p = Inl (UndefinedVariable (Value (curToken (consumeToken p)))))
   \<and> (Type (curToken p) = ''IDENT'' \<and> Type (curToken (consumeToken p)) \<noteq> ''ASSIGN''
        \<and> variables p (Value (curToken p)) = None
      \<longrightarrow> parseStatement p = Inl (UndefinedVariable (Value (curToken p))))
   \<and> variables (NewParser l) x = None
   \<and> main [''x''] = ([], Some (UndefinedVariable ''x''))
   \<and> main [''1 + x''] = ([], Some (UndefinedVariable ''x''))"
proof (intro conjI impI)
  assume h: "Type (curToken p) = ''IDENT'' \<and> variables p (Value (curToken p)) = None"
  then show t: "parseTerm p = Inl (UndefinedVariable (Value (curToken p)))"
    by (subst parseTerm.simps) (simp add: consumeToken_def)
  then show "parseExpression p = Inl (UndefinedVariable (Value (curToken p)))"
    by (subst parseExpression.simps) simp
next
  assume h: "isOperator (Type (curToken p)) \<and> Type (curToken (consumeToken p)) = ''IDENT''
        \<and> variables p (Value (curToken (consumeToken p))) = None"
  then have "parseTerm (consumeToken p)
      = Inl (UndefinedVariable (Value (curToken (consumeToken p))))"
    by (subst parseTerm.simps) (simp add: consumeToken_def)
  with h show "exprLoop left p = Inl (UndefinedVariable (Value (curToken (consumeToken p))))"
    by (subst exprLoop.simps) simp
next
  assume "Type (curToken p) = ''IDENT'' \<and> Type (curToken (consumeToken p)) \<noteq> ''ASSIGN''
        \<and> variables p (Value (curToken p)) = None"
  then show "parseStatement p = Inl (UndefinedVariable (Value (curToken p)))"
    by (simp add: parseStatement_def evaluateExpression_def consumeToken_def)
next
  show "variables (NewParser l) x = None" by (simp add: NewParser_def consumeToken_def)
next
  show "main [''x''] = ([], Some (UndefinedVariable ''x''))"
    by (simp add: lexer_eval parser_eval)
next
  show "main [''1 + x''] = ([], Some (UndefinedVariable ''x''))"
    by (simp add: lexer_eval parser_eval)
qed

theorem undefined_variable_read_witness:
  "parseTerm (feed (NewParser \<lparr>tokens = []\<rparr>) [identToken ''x''])
     = Inl (UndefinedVariable ''x'')
   \<and> parseExpression (feed (NewParser \<lparr>tokens = []\<rparr>) [identToken ''x''])
     = Inl (UndefinedVariable ''x'')
   \<and> exprLoop 1 (feed (NewParser \<lparr>tokens = []\<rparr>) [opToken Add, identToken ''x''])
     = Inl (UndefinedVariable ''x'')
   \<and> parseStatement (feed (NewParser \<lparr>tokens = []\<rparr>) [identToken ''x''])
     = Inl (UndefinedVariable ''x'')"
proof -
  let ?P = "NewParser \<lparr>tokens = []\<rparr>"
  let ?p = "feed ?P [identToken ''x'']"
  let ?q = "feed ?P [opToken Add, identToken ''x'']"
  have unbound: "variables ?P ''x'' = None" by (simp add: NewParser_def consumeToken_def)
  have h1: "Type (curToken ?p) = ''IDENT'' \<and> variables ?p (Value (curToken ?p)) = None"
    using unbound by (simp add: identToken_def)
  have h2: "isOperator (Type (curToken ?q)) \<and> Type (curToken (consumeToken ?q)) = ''IDENT''
        \<and> variables ?q (Value (curToken (consumeToken ?q))) = None"
    using unbound by (simp add: identToken_def isOperator_def)
  have h3: "Type (curToken (consumeToken ?p)) \<noteq> ''ASSIGN''"
    by (simp add: EOF_def)
  have v: "Value (curToken ?p) = ''x''" "Value (curToken (consumeToken ?q)) = ''x''"
    by (simp_all add: identToken_def)
  from undefined_variable_read [where p = ?p] h1 h3 v
  have a: "parseTerm ?p = Inl (UndefinedVariable ''x'')
      \<and> parseExpression ?p = Inl (UndefinedVariable ''x'')
      \<and> parseStatement ?p = Inl (UndefinedVariable ''x'')"
    by simp
  from undefined_variable_read [where p = ?q and left = 1] h2 v
  have b: "exprLoop 1 ?q = Inl (UndefinedVariable ''x'')"
    by simp
  from a b show ?thesis by blast
qed

lemma exprLoop_ReturnInLoop:
  "exprLoop left p = Inr (ReturnInLoop, v, p') \<Longrightarrow>
     isOperator (Type (curToken p)) \<and> Type (curToken p') = ''RPAREN''"
proof (induction "remaining p" arbitrary: left p rule: less_induct)
  case less
  from less.prems have op: "isOperator (Type (curToken p))"
    by (auto simp: exprLoop.simps [of left p] split: if_splits)
  from less.prems op obtain right p2 left' where
    t: "parseTerm (consumeToken p) = Inr (right, p2)"
    and r: "if Type (curToken p2) = ''RPAREN'' then p' = p2
            else exprLoop left' p2 = Inr (ReturnInLoop, v, p')"
    by (auto simp: exprLoop.simps [of left p] split: sum.splits prod.splits if_splits)
  from t have "remaining p2 < remaining (consumeToken p)" by (rule parseTerm_remaining)
  then have smaller: "remaining p2 < remaining p"
    using remaining_consumeToken [of p] by simp
  show ?case
  proof (cases "Type (curToken p2) = ''RPAREN''")
    case True
    with r op show ?thesis by simp
  next
    case False
    with r have "exprLoop left' p2 = Inr (ReturnInLoop, v, p')" by simp
    from less.hyps [OF smaller this] op show ?thesis by simp
  qed
qed

subsection \<open>The return inside the operator loop\<close>

text \<open>
  C7. In \<^verbatim>\<open>parseExpression\<close>, when an operator has been folded and the current token is
  \<^verbatim>\<open>RPAREN\<close>, the loop returns the accumulator at once, the \<^verbatim>\<open>RPAREN\<close> still the
  current token. That return is taken only in a loop that was entered at an operator, so
  after at least one fold. An expression of one term followed by \<^verbatim>\<open>RPAREN\<close> leaves
  through the failing loop condition, the \<^verbatim>\<open>RPAREN\<close> likewise still current.
\<close>

theorem early_return_at_RPAREN:
  "(isOperator (Type (curToken p)) \<and> parseTerm (consumeToken p) = Inr (right, p2)
      \<and> applyOperator (Type (curToken p)) left right = Inr left'
      \<and> Type (curToken p2) = ''RPAREN''
      \<longrightarrow> exprLoop left p = Inr (ReturnInLoop, left', p2))
   \<and> (exprLoop left p = Inr (ReturnInLoop, v, p')
      \<longrightarrow> isOperator (Type (curToken p)) \<and> Type (curToken p') = ''RPAREN'')
   \<and> (parseTerm q = Inr (w, q1) \<and> Type (curToken q1) = ''RPAREN''
      \<longrightarrow> exprLoop w q1 = Inr (ReturnAfterLoop, w, q1) \<and> parseExpression q = Inr (w, q1))"
proof (intro conjI impI)
  assume "isOperator (Type (curToken p)) \<and> parseTerm (consumeToken p) = Inr (right, p2)
      \<and> applyOperator (Type (curToken p)) left right = Inr left'
      \<and> Type (curToken p2) = ''RPAREN''"
  then show "exprLoop left p = Inr (ReturnInLoop, left', p2)"
    by (subst exprLoop.simps) simp
next
  assume r: "exprLoop left p = Inr (ReturnInLoop, v, p')"
  then show "isOperator (Type (curToken p))" by (simp add: exprLoop_ReturnInLoop)
  from r show "Type (curToken p') = ''RPAREN''" by (simp add: exprLoop_ReturnInLoop)
next
  assume h: "parseTerm q = Inr (w, q1) \<and> Type (curToken q1) = ''RPAREN''"
  then have "\<not> isOperator (Type (curToken q1))" by (simp add: isOperator_def)
  then show l: "exprLoop w q1 = Inr (ReturnAfterLoop, w, q1)" by (rule exprLoop_not_operator)
  with h show "parseExpression q = Inr (w, q1)" by (simp add: parseExpression.simps [of q])
qed

theorem early_return_at_RPAREN_witness:
  "exprLoop 1 (feed (NewParser \<lparr>tokens = []\<rparr>) [opToken Add, numberToken ''2'', RPAREN])
     = Inr (ReturnInLoop, 3, feed (NewParser \<lparr>tokens = []\<rparr>) [RPAREN])
   \<and> isOperator (Type (curToken
         (feed (NewParser \<lparr>tokens = []\<rparr>) [opToken Add, numberToken ''2'', RPAREN])))
   \<and> Type (curToken (feed (NewParser \<lparr>tokens = []\<rparr>) [RPAREN])) = ''RPAREN''
   \<and> exprLoop 2 (feed (NewParser \<lparr>tokens = []\<rparr>) [RPAREN])
       = Inr (ReturnAfterLoop, 2, feed (NewParser \<lparr>tokens = []\<rparr>) [RPAREN])
   \<and> parseExpression (feed (NewParser \<lparr>tokens = []\<rparr>) [numberToken ''2'', RPAREN])
       = Inr (2, feed (NewParser \<lparr>tokens = []\<rparr>) [RPAREN])"
proof -
  let ?P = "NewParser \<lparr>tokens = []\<rparr>"
  let ?p = "feed ?P [opToken Add, numberToken ''2'', RPAREN]"
  let ?p2 = "feed ?P [RPAREN]"
  let ?q = "feed ?P [numberToken ''2'', RPAREN]"
  have two: "Atoi ''2'' = Some 2" by (simp add: Atoi_def byte_def)
  have h1: "isOperator (Type (curToken ?p))" by (simp add: isOperator_def)
  have h2: "parseTerm (consumeToken ?p) = Inr (2, ?p2)" by (simp add: parseTerm_number two)
  have h3: "applyOperator (Type (curToken ?p)) 1 2 = Inr 3" by (simp add: applyOperator_def)
  have h4: "Type (curToken ?p2) = ''RPAREN''" by (simp add: RPAREN_def)
  have h5: "parseTerm ?q = Inr (2, ?p2)" by (simp add: parseTerm_number two)
  note inst = early_return_at_RPAREN [where p = ?p and right = 2 and ?p2.0 = ?p2 and left = 1
      and left' = 3 and v = 3 and p' = ?p2 and q = ?q and w = 2 and ?q1.0 = ?p2]
  from inst h1 h2 h3 h4 have a: "exprLoop 1 ?p = Inr (ReturnInLoop, 3, ?p2)" by blast
  from inst a have b: "isOperator (Type (curToken ?p)) \<and> Type (curToken ?p2) = ''RPAREN''"
    by blast
  from inst h5 h4 have c: "exprLoop 2 ?p2 = Inr (ReturnAfterLoop, 2, ?p2)
      \<and> parseExpression ?q = Inr (2, ?p2)" by blast
  from a b c show ?thesis by blast
qed

subsection \<open>Parenthesised terms\<close>

text \<open>
  C2, as the code has it. On \<^verbatim>\<open>LPAREN\<close>, \<^verbatim>\<open>parseTerm\<close> consumes it, evaluates the whole
  inner expression, whatever its operators, panics with \<^verbatim>\<open>Expected RPAREN\<close> unless the
  current token is then \<^verbatim>\<open>RPAREN\<close>, consumes that and returns the inner value: on the
  tokens of any parenthesised expression of the grammar it returns the value of the inner
  expression and stops after the closing parenthesis. The parentheses must be words of
  their own: the input \<^verbatim>\<open>( 2 + 3 ) * 4\<close> prints 20.
\<close>

theorem parenthesised_term_value:
  "parseTerm (feed p (LPAREN # exprTokens e @ RPAREN # rest)) =
     (case exprValue (variables p) e of
        Inl err \<Rightarrow> Inl err
      | Inr v \<Rightarrow> Inr (v, feed p rest))
   \<and> (Type (curToken q) = ''LPAREN'' \<longrightarrow>
        parseTerm q =
          (case parseExpression (consumeToken q) of
             Inl err \<Rightarrow> Inl err
           | Inr (v, q1) \<Rightarrow>
               if Type (curToken q1) = ''RPAREN'' then Inr (v, consumeToken q1)
               else Inl ExpectedRParen))
   \<and> main [''( 2 + 3 ) * 4''] = ([20], None)"
proof (intro conjI impI)
  show "parseTerm (feed p (LPAREN # exprTokens e @ RPAREN # rest)) =
     (case exprValue (variables p) e of
        Inl err \<Rightarrow> Inl err
      | Inr v \<Rightarrow> Inr (v, feed p rest))"
    using parser_refines_grammar(1) [of "Parens e"] by simp
next
  assume "Type (curToken q) = ''LPAREN''"
  then show "parseTerm q =
          (case parseExpression (consumeToken q) of
             Inl err \<Rightarrow> Inl err
           | Inr (v, q1) \<Rightarrow>
               if Type (curToken q1) = ''RPAREN'' then Inr (v, consumeToken q1)
               else Inl ExpectedRParen)"
    by (subst parseTerm.simps) (simp split: sum.splits prod.splits)
next
  show "main [''( 2 + 3 ) * 4''] = ([20], None)"
    by (simp add: lexer_eval parser_eval)
qed

theorem parenthesised_term_value_witness:
  "Type (curToken (feed (NewParser \<lparr>tokens = []\<rparr>) [LPAREN, numberToken ''2'', RPAREN]))
     = ''LPAREN''
   \<and> parseTerm (feed (NewParser \<lparr>tokens = []\<rparr>) [LPAREN, numberToken ''2'', RPAREN])
     = Inr (2, feed (NewParser \<lparr>tokens = []\<rparr>) [])
   \<and> parseTerm (feed (NewParser \<lparr>tokens = []\<rparr>) [LPAREN, numberToken ''2'', numberToken ''3''])
     = Inl ExpectedRParen"
proof -
  let ?P = "NewParser \<lparr>tokens = []\<rparr>"
  let ?q = "feed ?P [LPAREN, numberToken ''2'', RPAREN]"
  let ?r = "feed ?P [LPAREN, numberToken ''2'', numberToken ''3'']"
  have two: "Atoi ''2'' = Some 2" by (simp add: Atoi_def byte_def)
  have h: "Type (curToken ?q) = ''LPAREN''" "Type (curToken ?r) = ''LPAREN''"
    by (simp_all add: LPAREN_def)
  have s: "stops [RPAREN]" "stops [numberToken ''3'']"
    by (simp_all add: stops_def RPAREN_def numberToken_def isOperator_def)
  have e1: "parseExpression (consumeToken ?q) = Inr (2, feed ?P [RPAREN])"
    by (simp add: parseExpression_value parseTerm_number two exprLoop_stops s)
  have e2: "parseExpression (consumeToken ?r) = Inr (2, feed ?P [numberToken ''3''])"
    by (simp add: parseExpression_value parseTerm_number two exprLoop_stops s)
  from parenthesised_term_value [where q = ?q] h(1) e1
  have a: "parseTerm ?q = Inr (2, feed ?P [])" by (simp add: RPAREN_def)
  from parenthesised_term_value [where q = ?r] h(2) e2
  have b: "parseTerm ?r = Inl ExpectedRParen" by (simp add: numberToken_def)
  from h(1) a b show ?thesis by blast
qed

text \<open>
  C2, as the specification states it, fails on its own example: in \<^verbatim>\<open>(2 + 3) * 4\<close> the
  words \<^verbatim>\<open>(2\<close> and \<^verbatim>\<open>3)\<close> are neither punctuation nor numbers nor identifiers, and the
  run ends in the panic \<^verbatim>\<open>Unexpected token\<close> with nothing printed.
\<close>

theorem unspaced_parentheses_are_unknown_words:
  "tokenizeLine ''(2 + 3) * 4'' =
     Inr [\<lparr>Type = ''UNKNOWN'', Value = ''(2''\<rparr>, \<lparr>Type = ''PLUS'', Value = ''+''\<rparr>,
          \<lparr>Type = ''UNKNOWN'', Value = ''3)''\<rparr>, \<lparr>Type = ''MULTIPLY'', Value = ''*''\<rparr>,
          \<lparr>Type = ''NUMBER'', Value = ''4''\<rparr>]
   \<and> main [''(2 + 3) * 4''] = ([], Some UnexpectedToken)
   \<and> main [''(2 + 3) * 4''] \<noteq> ([20], None)"
  by (simp add: lexer_eval parser_eval)

lemma parseStatement_variables:
  assumes "parseStatement p = Inr p'"
    and "\<not> (Type (curToken p) = ''IDENT'' \<and> Value (curToken p) = x
            \<and> Type (curToken (consumeToken p)) = ''ASSIGN'')"
  shows "variables p' x = variables p x"
proof (cases "Type (curToken p) = ''IDENT''")
  case True
  show ?thesis
  proof (cases "Type (curToken (consumeToken p)) = ''ASSIGN''")
    case assign: True
    with assms(1) True obtain val p2 where
      e: "parseExpression (consumeToken (consumeToken p)) = Inr (val, p2)"
      and p': "p' = p2\<lparr>variables := (variables p2)(Value (curToken p) \<mapsto> val)\<rparr>"
      by (auto simp: parseStatement_def Let_def split: sum.splits prod.splits)
    from e have "variables p2 = variables (consumeToken (consumeToken p))"
      using frame(1) by blast
    then have "variables p2 = variables p" by (simp add: consumeToken_def)
    with p' assms(2) True assign show ?thesis by auto
  next
    case False
    with assms(1) True obtain val where "p' = Println val (consumeToken p)"
      by (auto simp: parseStatement_def Let_def split: sum.splits)
    then show ?thesis by (simp add: Println_def consumeToken_def)
  qed
next
  case False
  with assms(1) obtain val p1 where e: "parseExpression p = Inr (val, p1)"
    and p': "p' = Println val p1"
    by (auto simp: parseStatement_def split: sum.splits prod.splits)
  from e have "variables p1 = variables p" using frame(1) by blast
  with p' show ?thesis by (simp add: Println_def)
qed

subsection \<open>Assignment\<close>

text \<open>
  C3. An assignment \<^verbatim>\<open>x = <expr>\<close> binds the value of the expression to \<open>x\<close>, whatever
  \<open>x\<close> was bound to before, and prints nothing. A statement that is not an assignment to
  \<open>x\<close> leaves the binding of \<open>x\<close> as it is. A later bare reference to \<open>x\<close> prints the value
  \<open>x\<close> is bound to. So the last assignment wins: the input \<^verbatim>\<open>x = 5\<close>, \<^verbatim>\<open>x\<close>,
  \<^verbatim>\<open>x = 7 * 2\<close>, \<^verbatim>\<open>x\<close> prints 5 and 14.
\<close>

theorem assignment_last_write_wins:
  "(Type (curToken p) = ''IDENT'' \<and> Type (curToken (consumeToken p)) = ''ASSIGN''
      \<and> parseExpression (consumeToken (consumeToken p)) = Inr (v, p2)
      \<longrightarrow> parseStatement p = Inr (p2\<lparr>variables := (variables p)(Value (curToken p) \<mapsto> v)\<rparr>)
        \<and> stdout p2 = stdout p)
   \<and> (parseStatement r = Inr r'
      \<and> \<not> (Type (curToken r) = ''IDENT'' \<and> Value (curToken r) = x
            \<and> Type (curToken (consumeToken r)) = ''ASSIGN'')
      \<longrightarrow> variables r' x = variables r x)
   \<and> (Type (curToken q) = ''IDENT'' \<and> Type (curToken (consumeToken q)) \<noteq> ''ASSIGN''
      \<and> variables q (Value (curToken q)) = Some w
      \<longrightarrow> parseStatement q = Inr (Println w (consumeToken q))
        \<and> stdout (Println w (consumeToken q)) = stdout q @ [sint w])
   \<and> main [''x = 5'', ''x'', ''x = 7 * 2'', ''x''] = ([5, 14], None)"
proof (intro conjI impI)
  assume h: "Type (curToken p) = ''IDENT'' \<and> Type (curToken (consumeToken p)) = ''ASSIGN''
      \<and> parseExpression (consumeToken (consumeToken p)) = Inr (v, p2)"
  then have "variables p2 = variables (consumeToken (consumeToken p))
      \<and> stdout p2 = stdout (consumeToken (consumeToken p))"
    using frame(1) by blast
  then have same: "variables p2 = variables p \<and> stdout p2 = stdout p"
    by (simp add: consumeToken_def)
  with h show "parseStatement p
      = Inr (p2\<lparr>variables := (variables p)(Value (curToken p) \<mapsto> v)\<rparr>)"
    by (simp add: parseStatement_def)
  from same show "stdout p2 = stdout p" by simp
next
  assume "parseStatement r = Inr r'
      \<and> \<not> (Type (curToken r) = ''IDENT'' \<and> Value (curToken r) = x
            \<and> Type (curToken (consumeToken r)) = ''ASSIGN'')"
  then show "variables r' x = variables r x"
    using parseStatement_variables [of r r' x] by blast
next
  assume "Type (curToken q) = ''IDENT'' \<and> Type (curToken (consumeToken q)) \<noteq> ''ASSIGN''
      \<and> variables q (Value (curToken q)) = Some w"
  then show "parseStatement q = Inr (Println w (consumeToken q))"
    by (simp add: parseStatement_def evaluateExpression_def consumeToken_def)
next
  show "stdout (Println w (consumeToken q)) = stdout q @ [sint w]"
    by (simp add: Println_def consumeToken_def)
next
  show "main [''x = 5'', ''x'', ''x = 7 * 2'', ''x''] = ([5, 14], None)"
    by (simp add: lexer_eval parser_eval)
qed

theorem assignment_last_write_wins_witness:
  "parseStatement (feed (NewParser \<lparr>tokens = []\<rparr>)
       [identToken ''x'', \<lparr>Type = ''ASSIGN'', Value = ''=''\<rparr>, numberToken ''5''])
     = Inr ((feed (NewParser \<lparr>tokens = []\<rparr>) [])\<lparr>variables := [''x'' \<mapsto> 5]\<rparr>)
   \<and> parseStatement (feed ((NewParser \<lparr>tokens = []\<rparr>)\<lparr>variables := [''x'' \<mapsto> 5]\<rparr>)
       [identToken ''x''])
     = Inr (Println 5 (feed ((NewParser \<lparr>tokens = []\<rparr>)\<lparr>variables := [''x'' \<mapsto> 5]\<rparr>) []))
   \<and> variables (Println 5 (feed ((NewParser \<lparr>tokens = []\<rparr>)\<lparr>variables := [''x'' \<mapsto> 5]\<rparr>) []))
       ''x'' = Some 5"
proof -
  let ?P = "NewParser \<lparr>tokens = []\<rparr>"
  let ?p = "feed ?P [identToken ''x'', \<lparr>Type = ''ASSIGN'', Value = ''=''\<rparr>, numberToken ''5'']"
  let ?Q = "?P\<lparr>variables := [''x'' \<mapsto> 5]\<rparr>"
  let ?q = "feed ?Q [identToken ''x'']"
  have five: "Atoi ''5'' = Some 5" by (simp add: Atoi_def byte_def)
  have empty: "variables ?P = Map.empty" by (simp add: NewParser_def consumeToken_def)
  have h1: "Type (curToken ?p) = ''IDENT''" "Value (curToken ?p) = ''x''"
    by (simp_all add: identToken_def)
  have h2: "Type (curToken (consumeToken ?p)) = ''ASSIGN''" by simp
  have h3: "parseExpression (consumeToken (consumeToken ?p)) = Inr (5, feed ?P [])"
    by (simp add: parseExpression_value parseTerm_number five exprLoop_stops stops_def)
  from assignment_last_write_wins [where p = ?p and v = 5 and ?p2.0 = "feed ?P []"] h1 h2 h3
  have a: "parseStatement ?p = Inr ((feed ?P [])\<lparr>variables := [''x'' \<mapsto> 5]\<rparr>)"
    by (simp add: empty)
  have g1: "Type (curToken ?q) = ''IDENT''" "Value (curToken ?q) = ''x''"
    by (simp_all add: identToken_def)
  have g2: "Type (curToken (consumeToken ?q)) \<noteq> ''ASSIGN''" by (simp add: EOF_def)
  have g3: "variables ?q (Value (curToken ?q)) = Some 5" by (simp add: identToken_def)
  from assignment_last_write_wins [where q = ?q and w = 5] g1 g2 g3
  have b: "parseStatement ?q = Inr (Println 5 (feed ?Q []))" by simp
  have g4: "\<not> (Type (curToken ?q) = ''IDENT'' \<and> Value (curToken ?q) = ''x''
            \<and> Type (curToken (consumeToken ?q)) = ''ASSIGN'')"
    using g2 by simp
  from assignment_last_write_wins [where r = ?q and r' = "Println 5 (feed ?Q [])" and x = "''x''"]
    b g4
  have "variables (Println 5 (feed ?Q [])) ''x'' = variables ?q ''x''" by blast
  then have c: "variables (Println 5 (feed ?Q [])) ''x'' = Some 5" by simp
  from a b c show ?thesis by blast
qed

text \<open>
  The quotient \<open>quo\<close> is the truncated one: the remainder it leaves is smaller in
  magnitude than the divisor and has the sign of the dividend.
\<close>

lemma quo_remainder: "x - quo x y * y = sgn x * (\<bar>x\<bar> mod \<bar>y\<bar>)"
proof -
  have "sgn y * y = \<bar>y\<bar>" by (simp add: abs_sgn mult.commute)
  then have "quo x y * y = sgn x * ((\<bar>x\<bar> div \<bar>y\<bar>) * \<bar>y\<bar>)"
    by (simp add: quo_def algebra_simps)
  moreover have "x = sgn x * \<bar>x\<bar>" by (simp add: sgn_mult_abs)
  moreover have "\<bar>x\<bar> = (\<bar>x\<bar> div \<bar>y\<bar>) * \<bar>y\<bar> + \<bar>x\<bar> mod \<bar>y\<bar>" by simp
  ultimately show ?thesis by (metis add_diff_cancel_left' right_diff_distrib)
qed

lemma quo_truncates:
  assumes "y \<noteq> 0"
  shows "\<bar>x - quo x y * y\<bar> < \<bar>y\<bar> \<and> (0 \<le> x \<longrightarrow> 0 \<le> x - quo x y * y)
           \<and> (x \<le> 0 \<longrightarrow> x - quo x y * y \<le> 0)"
proof -
  have m: "0 \<le> \<bar>x\<bar> mod \<bar>y\<bar>" "\<bar>x\<bar> mod \<bar>y\<bar> < \<bar>y\<bar>" using assms by simp_all
  have r: "x - quo x y * y = sgn x * (\<bar>x\<bar> mod \<bar>y\<bar>)" by (rule quo_remainder)
  consider "x = 0" | "0 < x" | "x < 0" by linarith
  then show ?thesis
  proof cases
    case 1
    with assms show ?thesis by (simp add: quo_def)
  next
    case 2
    with r m show ?thesis by simp
  next
    case 3
    with r m show ?thesis by simp
  qed
qed

lemma quo_abs: "\<bar>quo x y\<bar> = \<bar>x\<bar> div \<bar>y\<bar>"
proof (cases "x = 0 \<or> y = 0")
  case True
  then show ?thesis by (auto simp: quo_def)
next
  case False
  then have "\<bar>sgn x\<bar> = 1" "\<bar>sgn y\<bar> = 1" by (simp_all add: abs_sgn_eq)
  moreover have "0 \<le> \<bar>x\<bar> div \<bar>y\<bar>" by (simp add: div_int_pos_iff)
  ultimately show ?thesis by (simp add: quo_def abs_mult)
qed

lemma quo_range:
  assumes "y \<noteq> 0" and "- (2 ^ 63) \<le> x" and "x < 2 ^ 63" and "\<not> (x = - (2 ^ 63) \<and> y = - 1)"
  shows "- (2 ^ 63) \<le> quo x y \<and> quo x y < 2 ^ 63"
proof (cases "\<bar>x\<bar> < 2 ^ 63")
  case True
  have "\<bar>x\<bar> div \<bar>y\<bar> \<le> \<bar>x\<bar>"
    by (metis abs_ge_zero div_0 int_div_le_self order_less_le)
  with True have "\<bar>quo x y\<bar> < 2 ^ 63" by (simp add: quo_abs)
  then show ?thesis by linarith
next
  case False
  with assms have x: "x = - (2 ^ 63)" by linarith
  show ?thesis
  proof (cases "y = 1")
    case True
    with x show ?thesis by (simp add: quo_def)
  next
    case False
    with assms x have "1 < \<bar>y\<bar>" by linarith
    moreover from x have "0 < \<bar>x\<bar>" by simp
    ultimately have "\<bar>x\<bar> div \<bar>y\<bar> < \<bar>x\<bar>" by (rule int_div_less_self [rotated])
    with x have "\<bar>quo x y\<bar> < 2 ^ 63" by (simp add: quo_abs)
    then show ?thesis by linarith
  qed
qed

lemma sint_go_div:
  assumes "b \<noteq> 0" and "\<not> (sint a = - (2 ^ 63) \<and> sint b = - 1)"
  shows "sint (go_div a b) = quo (sint a) (sint b)"
proof -
  have "sint b \<noteq> 0" using assms(1) by (simp add: signed_eq_0_iff)
  moreover have "- (2 ^ 63) \<le> sint a" "sint a < 2 ^ 63"
    using sint_ge [of a] sint_lt [of a] by simp_all
  ultimately have "- (2 ^ 63) \<le> quo (sint a) (sint b) \<and> quo (sint a) (sint b) < 2 ^ 63"
    using assms(2) by (intro quo_range)
  then show ?thesis
    by (simp add: go_div_def sint_sbintrunc' signed_take_bit_int_eq_self)
qed

subsection \<open>Division\<close>

text \<open>
  C5. When the right operand of \<^verbatim>\<open>/\<close> evaluates to zero, whether it is a literal or a
  variable that holds zero, the evaluation panics with \<^verbatim>\<open>Division by zero\<close>. Otherwise
  the accumulator becomes Go's quotient: the integer quotient truncated towards zero
  (the remainder smaller in magnitude than the divisor and of the dividend's sign); the
  one quotient outside the range of \<^verbatim>\<open>int\<close>, that of the most negative value by
  \<open>-1\<close>, wraps to the most negative value.
\<close>

theorem division_by_zero_or_truncated:
  "(Type (curToken p) = ''DIVIDE'' \<and> parseTerm (consumeToken p) = Inr (right, p2) \<and> right = 0
      \<longrightarrow> exprLoop left p = Inl DivisionByZero)
   \<and> (Type (curToken p) = ''DIVIDE'' \<and> parseTerm (consumeToken p) = Inr (right, p2)
        \<and> right \<noteq> 0
      \<longrightarrow> exprLoop left p =
            (if Type (curToken p2) = ''RPAREN'' then Inr (ReturnInLoop, go_div left right, p2)
             else exprLoop (go_div left right) p2))
   \<and> (b \<noteq> 0 \<and> \<not> (sint a = - (2 ^ 63) \<and> sint b = - 1)
      \<longrightarrow> \<bar>sint a - sint (go_div a b) * sint b\<bar> < \<bar>sint b\<bar>
        \<and> (0 \<le> sint a \<longrightarrow> 0 \<le> sint a - sint (go_div a b) * sint b)
        \<and> (sint a \<le> 0 \<longrightarrow> sint a - sint (go_div a b) * sint b \<le> 0))
   \<and> main [''5 / 0''] = ([], Some DivisionByZero)
   \<and> main [''z = 0'', ''5 / z''] = ([], Some DivisionByZero)
   \<and> main [''7 / 2'', ''-7 / 2'', ''7 / -2'', ''-7 / -2''] = ([3, - 3, - 3, 3], None)
   \<and> go_div (- (2 ^ 63)) (- 1) = - (2 ^ 63)"
proof (intro conjI)
  show "Type (curToken p) = ''DIVIDE'' \<and> parseTerm (consumeToken p) = Inr (right, p2)
      \<and> right = 0 \<longrightarrow> exprLoop left p = Inl DivisionByZero"
    by (subst exprLoop.simps) (simp add: isOperator_def applyOperator_def)
next
  show "Type (curToken p) = ''DIVIDE'' \<and> parseTerm (consumeToken p) = Inr (right, p2)
        \<and> right \<noteq> 0
      \<longrightarrow> exprLoop left p =
            (if Type (curToken p2) = ''RPAREN'' then Inr (ReturnInLoop, go_div left right, p2)
             else exprLoop (go_div left right) p2)"
    by (subst exprLoop.simps) (simp add: isOperator_def applyOperator_def)
next
  show "b \<noteq> 0 \<and> \<not> (sint a = - (2 ^ 63) \<and> sint b = - 1)
      \<longrightarrow> \<bar>sint a - sint (go_div a b) * sint b\<bar> < \<bar>sint b\<bar>
        \<and> (0 \<le> sint a \<longrightarrow> 0 \<le> sint a - sint (go_div a b) * sint b)
        \<and> (sint a \<le> 0 \<longrightarrow> sint a - sint (go_div a b) * sint b \<le> 0)"
  proof
    assume h: "b \<noteq> 0 \<and> \<not> (sint a = - (2 ^ 63) \<and> sint b = - 1)"
    then have "sint (go_div a b) = quo (sint a) (sint b)" by (simp add: sint_go_div)
    moreover from h have "sint b \<noteq> 0" by (simp add: signed_eq_0_iff)
    ultimately show "\<bar>sint a - sint (go_div a b) * sint b\<bar> < \<bar>sint b\<bar>
        \<and> (0 \<le> sint a \<longrightarrow> 0 \<le> sint a - sint (go_div a b) * sint b)
        \<and> (sint a \<le> 0 \<longrightarrow> sint a - sint (go_div a b) * sint b \<le> 0)"
      using quo_truncates [of "sint b" "sint a"] by simp
  qed
next
  show "main [''5 / 0''] = ([], Some DivisionByZero)"
    by (simp add: lexer_eval parser_eval)
next
  show "main [''z = 0'', ''5 / z''] = ([], Some DivisionByZero)"
    by (simp add: lexer_eval parser_eval)
next
  show "main [''7 / 2'', ''-7 / 2'', ''7 / -2'', ''-7 / -2''] = ([3, - 3, - 3, 3], None)"
    by (simp add: lexer_eval parser_eval)
next
  show "go_div (- (2 ^ 63)) (- 1) = - (2 ^ 63)"
    by (simp add: go_div_def quo_def)
qed

theorem division_by_zero_or_truncated_witness:
  "exprLoop 5 (feed (NewParser \<lparr>tokens = []\<rparr>) [opToken Div, numberToken ''0''])
     = Inl DivisionByZero
   \<and> exprLoop (- 7) (feed (NewParser \<lparr>tokens = []\<rparr>) [opToken Div, numberToken ''2''])
     = Inr (ReturnAfterLoop, - 3, feed (NewParser \<lparr>tokens = []\<rparr>) [])
   \<and> \<bar>sint (- 7 :: go_int) - sint (go_div (- 7) 2) * sint (2 :: go_int)\<bar> < \<bar>sint (2 :: go_int)\<bar>
   \<and> sint (- 7 :: go_int) - sint (go_div (- 7) 2) * sint (2 :: go_int) \<le> 0"
proof -
  let ?P = "NewParser \<lparr>tokens = []\<rparr>"
  let ?p = "feed ?P [opToken Div, numberToken ''0'']"
  let ?q = "feed ?P [opToken Div, numberToken ''2'']"
  have zero: "Atoi ''0'' = Some 0" and two: "Atoi ''2'' = Some 2"
    by (simp_all add: Atoi_def byte_def)
  have h1: "Type (curToken ?p) = ''DIVIDE''" "Type (curToken ?q) = ''DIVIDE''" by simp_all
  have h2: "parseTerm (consumeToken ?p) = Inr (0, feed ?P [])"
    by (simp add: parseTerm_number zero)
  have h3: "parseTerm (consumeToken ?q) = Inr (2, feed ?P [])"
    by (simp add: parseTerm_number two)
  have d: "go_div (- 7) 2 = - 3" by (simp add: go_div_def quo_def)
  from division_by_zero_or_truncated [where p = ?p and right = 0 and ?p2.0 = "feed ?P []"
      and left = 5] h1(1) h2
  have a: "exprLoop 5 ?p = Inl DivisionByZero" by blast
  from division_by_zero_or_truncated [where p = ?q and right = 2 and ?p2.0 = "feed ?P []"
      and left = "- 7"] h1(2) h3
  have "exprLoop (- 7) ?q =
      (if Type (curToken (feed ?P [])) = ''RPAREN''
       then Inr (ReturnInLoop, go_div (- 7) 2, feed ?P [])
       else exprLoop (go_div (- 7) 2) (feed ?P []))"
    by simp
  then have b: "exprLoop (- 7) ?q = Inr (ReturnAfterLoop, - 3, feed ?P [])"
    by (simp add: d EOF_def exprLoop_stops stops_def)
  have g: "(2 :: go_int) \<noteq> 0 \<and> \<not> (sint (- 7 :: go_int) = - (2 ^ 63) \<and> sint (2 :: go_int) = - 1)"
    by simp
  have neg: "sint (- 7 :: go_int) \<le> 0" by simp
  from division_by_zero_or_truncated [where a = "- 7" and b = 2 and p = ?p and right = 0
      and ?p2.0 = "feed ?P []" and left = 5] g neg
  have c: "\<bar>sint (- 7 :: go_int) - sint (go_div (- 7) 2) * sint (2 :: go_int)\<bar> < \<bar>sint (2 :: go_int)\<bar>
      \<and> sint (- 7 :: go_int) - sint (go_div (- 7) 2) * sint (2 :: go_int) \<le> 0"
    by blast
  from a b c show ?thesis by blast
qed

text \<open>The words of a line are never empty, so the lexer never indexes an empty word.\<close>

lemma skipSpaces_not_space:
  "skipSpaces data \<noteq> [] \<Longrightarrow> \<not> isSpace (fst (DecodeRune (skipSpaces data)))"
proof (induction data rule: skipSpaces.induct)
  case (1 data)
  show ?case
  proof (cases "data \<noteq> [] \<and> isSpace (fst (DecodeRune data))")
    case True
    then have eq: "skipSpaces data = skipSpaces (drop (snd (DecodeRune data)) data)"
      by (subst skipSpaces.simps) simp
    with 1 True show ?thesis by simp
  next
    case False
    then have "skipSpaces data = data" by (subst skipSpaces.simps) auto
    with False 1(2) show ?thesis by auto
  qed
qed

lemma scanWord_nonempty:
  assumes "data \<noteq> []" and "\<not> isSpace (fst (DecodeRune data))"
  shows "fst (scanWord data) \<noteq> []"
proof -
  from assms(1) have "1 \<le> snd (DecodeRune data)" by (rule DecodeRune_width)
  with assms(1) have "take (snd (DecodeRune data)) data \<noteq> []" by (cases data) auto
  with assms show ?thesis by (subst scanWord.simps) simp
qed

lemma ScanWords_nonempty: "w \<in> set (ScanWords data) \<Longrightarrow> w \<noteq> []"
proof (induction data rule: ScanWords.induct)
  case (1 data)
  show ?case
  proof (cases "skipSpaces data = []")
    case True
    with 1(2) show ?thesis by (simp add: ScanWords.simps [of data])
  next
    case False
    then have first: "fst (scanWord (skipSpaces data)) \<noteq> []"
      by (intro scanWord_nonempty skipSpaces_not_space)
    from False 1(2) have "w = fst (scanWord (skipSpaces data))
        \<or> w \<in> set (ScanWords (snd (scanWord (skipSpaces data))))"
      by (simp add: ScanWords.simps [of data])
    with first 1(1) [OF False] show ?thesis by auto
  qed
qed

lemma getTokenType_total: "w \<noteq> [] \<Longrightarrow> \<exists>t. getTokenType w = Inr t"
  by (simp add: getTokenType_def)

lemma tokenizeWords_total:
  assumes "\<forall>w \<in> set ws. w \<noteq> []"
  shows "\<exists>ts. tokenizeWords toks ws = Inr (toks @ ts) \<and> map Value ts = ws
           \<and> list_all (\<lambda>t. getTokenType (Value t) = Inr (Type t)) ts"
  using assms
proof (induction ws arbitrary: toks)
  case Nil
  show ?case by simp
next
  case (Cons w ws)
  then obtain t where t: "getTokenType w = Inr t" using getTokenType_total [of w] by auto
  from Cons obtain ts where
    ts: "tokenizeWords (toks @ [\<lparr>Type = t, Value = w\<rparr>]) ws
           = Inr ((toks @ [\<lparr>Type = t, Value = w\<rparr>]) @ ts)"
      "map Value ts = ws" "list_all (\<lambda>t. getTokenType (Value t) = Inr (Type t)) ts"
    by (meson list.set_intros(2))
  have "tokenizeWords toks (w # ws) = Inr (toks @ (\<lparr>Type = t, Value = w\<rparr> # ts))"
    using t ts(1) by simp
  moreover have "map Value (\<lparr>Type = t, Value = w\<rparr> # ts) = w # ws" using ts(2) by simp
  moreover have "list_all (\<lambda>t. getTokenType (Value t) = Inr (Type t)) (\<lparr>Type = t, Value = w\<rparr> # ts)"
    using t ts(3) by simp
  ultimately show ?case by (intro exI [of _ "\<lparr>Type = t, Value = w\<rparr> # ts"] conjI)
qed

lemma tokenizeLine_total:
  "\<exists>ts. tokenizeLine line = Inr ts \<and> map Value ts = ScanWords line
     \<and> list_all (\<lambda>t. getTokenType (Value t) = Inr (Type t)) ts"
  using tokenizeWords_total [of "ScanWords line" "[]"] ScanWords_nonempty
  by (auto simp: tokenizeLine_def)

lemma tokenizeInput_concat:
  "list_all2 (\<lambda>line ts. tokenizeLine line = Inr ts) lines tss \<Longrightarrow>
     tokenizeInput l lines = Inr (l\<lparr>tokens := tokens l @ concat tss\<rparr>)"
proof (induction lines arbitrary: l tss)
  case Nil
  then show ?case by simp
next
  case (Cons line lines)
  then obtain ts tss' where tss: "tss = ts # tss'" and ts: "tokenizeLine line = Inr ts"
    and rest: "list_all2 (\<lambda>line ts. tokenizeLine line = Inr ts) lines tss'"
    by (auto simp: list_all2_Cons1)
  from Cons.IH [OF rest] ts show ?case by (simp add: tss)
qed

lemma tokenizeLine_all:
  "\<exists>tss. list_all2 (\<lambda>line ts. tokenizeLine line = Inr ts) lines tss"
proof (induction lines)
  case Nil
  show ?case by simp
next
  case (Cons line lines)
  then obtain tss where "list_all2 (\<lambda>line ts. tokenizeLine line = Inr ts) lines tss" by blast
  moreover obtain ts where "tokenizeLine line = Inr ts" using tokenizeLine_total by blast
  ultimately have "list_all2 (\<lambda>line ts. tokenizeLine line = Inr ts) (line # lines) (ts # tss)"
    by simp
  then show ?case by blast
qed

lemma asciiLetter_IsLetter: "asciiLetter c \<Longrightarrow> IsLetter (byte c)"
  unfolding asciiLetter_def IsLetter_def by blast

lemma ascii_other_not_IsLetter:
  "byte c < 0x80 \<Longrightarrow> \<not> asciiLetter c \<Longrightarrow> \<not> IsLetter (byte c)"
  unfolding asciiLetter_def IsLetter_def by arith

subsection \<open>Classification of words\<close>

text \<open>
  C8, as the code has it. A word that is one of \<^verbatim>\<open>+ - * / = ( )\<close> is that operator's
  token; else a word that \<^verbatim>\<open>Atoi\<close> parses is a \<^verbatim>\<open>NUMBER\<close>; else a word whose first
  character is an ASCII letter is an \<^verbatim>\<open>IDENT\<close>, and one whose first character is
  another ASCII character is \<^verbatim>\<open>UNKNOWN\<close>. Every line tokenizes without failure, one
  token per word with the whole word as its text (\<^verbatim>\<open>x1\<close> is one identifier), so an
  unknown word is not rejected by the lexer. A term or a statement that starts at an
  \<^verbatim>\<open>UNKNOWN\<close> token panics with \<^verbatim>\<open>Unexpected token\<close>; an \<^verbatim>\<open>UNKNOWN\<close> token met where
  the closing parenthesis is required panics with \<^verbatim>\<open>Expected RPAREN\<close>.
\<close>

theorem word_classification:
  "getTokenType ''+'' = Inr ''PLUS'' \<and> getTokenType ''-'' = Inr ''MINUS''
   \<and> getTokenType ''*'' = Inr ''MULTIPLY'' \<and> getTokenType ''/'' = Inr ''DIVIDE''
   \<and> getTokenType ''='' = Inr ''ASSIGN'' \<and> getTokenType ''('' = Inr ''LPAREN''
   \<and> getTokenType '')'' = Inr ''RPAREN''
   \<and> (w \<notin> {''+'', ''-'', ''*'', ''/'', ''='', ''('', '')''} \<and> Atoi w \<noteq> None
      \<longrightarrow> getTokenType w = Inr ''NUMBER'')
   \<and> (w \<notin> {''+'', ''-'', ''*'', ''/'', ''='', ''('', '')''} \<and> Atoi w = None
        \<and> w \<noteq> [] \<and> asciiLetter (hd w)
      \<longrightarrow> getTokenType w = Inr ''IDENT'')
   \<and> (w \<notin> {''+'', ''-'', ''*'', ''/'', ''='', ''('', '')''} \<and> Atoi w = None
        \<and> w \<noteq> [] \<and> byte (hd w) < 0x80 \<and> \<not> asciiLetter (hd w)
      \<longrightarrow> getTokenType w = Inr ''UNKNOWN'')
   \<and> (\<exists>ts. tokenizeLine line = Inr ts \<and> map Value ts = ScanWords line
          \<and> list_all (\<lambda>t. getTokenType (Value t) = Inr (Type t)) ts)
   \<and> tokenizeLine ''x1'' = Inr [\<lparr>Type = ''IDENT'', Value = ''x1''\<rparr>]
   \<and> (Type (curToken p) = ''UNKNOWN''
      \<longrightarrow> parseTerm p = Inl UnexpectedToken \<and> parseStatement p = Inl UnexpectedToken)
   \<and> (Type (curToken q) = ''LPAREN'' \<and> parseExpression (consumeToken q) = Inr (v, q1)
        \<and> Type (curToken q1) = ''UNKNOWN''
      \<longrightarrow> parseTerm q = Inl ExpectedRParen)"
proof -
  have ops: "getTokenType ''+'' = Inr ''PLUS'' \<and> getTokenType ''-'' = Inr ''MINUS''
      \<and> getTokenType ''*'' = Inr ''MULTIPLY'' \<and> getTokenType ''/'' = Inr ''DIVIDE''
      \<and> getTokenType ''='' = Inr ''ASSIGN'' \<and> getTokenType ''('' = Inr ''LPAREN''
      \<and> getTokenType '')'' = Inr ''RPAREN''"
    by (simp add: getTokenType_def)
  have num: "w \<notin> {''+'', ''-'', ''*'', ''/'', ''='', ''('', '')''} \<and> Atoi w \<noteq> None
      \<longrightarrow> getTokenType w = Inr ''NUMBER''"
    by (simp add: getTokenType_def)
  have ident: "w \<notin> {''+'', ''-'', ''*'', ''/'', ''='', ''('', '')''} \<and> Atoi w = None
        \<and> w \<noteq> [] \<and> asciiLetter (hd w)
      \<longrightarrow> getTokenType w = Inr ''IDENT''"
  proof
    assume h: "w \<notin> {''+'', ''-'', ''*'', ''/'', ''='', ''('', '')''} \<and> Atoi w = None
        \<and> w \<noteq> [] \<and> asciiLetter (hd w)"
    then have "w ! 0 = hd w" by (simp add: hd_conv_nth)
    with h have "IsLetter (byte (w ! 0))" by (simp add: asciiLetter_IsLetter)
    with h show "getTokenType w = Inr ''IDENT''" by (simp add: getTokenType_def)
  qed
  have unknown: "w \<notin> {''+'', ''-'', ''*'', ''/'', ''='', ''('', '')''} \<and> Atoi w = None
        \<and> w \<noteq> [] \<and> byte (hd w) < 0x80 \<and> \<not> asciiLetter (hd w)
      \<longrightarrow> getTokenType w = Inr ''UNKNOWN''"
  proof
    assume h: "w \<notin> {''+'', ''-'', ''*'', ''/'', ''='', ''('', '')''} \<and> Atoi w = None
        \<and> w \<noteq> [] \<and> byte (hd w) < 0x80 \<and> \<not> asciiLetter (hd w)"
    then have "w ! 0 = hd w" by (simp add: hd_conv_nth)
    with h have "\<not> IsLetter (byte (w ! 0))" by (simp add: ascii_other_not_IsLetter)
    with h show "getTokenType w = Inr ''UNKNOWN''" by (simp add: getTokenType_def)
  qed
  have total: "\<exists>ts. tokenizeLine line = Inr ts \<and> map Value ts = ScanWords line
          \<and> list_all (\<lambda>t. getTokenType (Value t) = Inr (Type t)) ts"
    by (rule tokenizeLine_total)
  have x1: "tokenizeLine ''x1'' = Inr [\<lparr>Type = ''IDENT'', Value = ''x1''\<rparr>]"
    by (simp add: lexer_eval)
  have start: "Type (curToken p) = ''UNKNOWN''
      \<longrightarrow> parseTerm p = Inl UnexpectedToken \<and> parseStatement p = Inl UnexpectedToken"
  proof
    assume u: "Type (curToken p) = ''UNKNOWN''"
    then have t: "parseTerm p = Inl UnexpectedToken" by (subst parseTerm.simps) simp
    then have "parseExpression p = Inl UnexpectedToken" by (subst parseExpression.simps) simp
    with u have "parseStatement p = Inl UnexpectedToken" by (simp add: parseStatement_def)
    with t show "parseTerm p = Inl UnexpectedToken \<and> parseStatement p = Inl UnexpectedToken"
      by simp
  qed
  have closing: "Type (curToken q) = ''LPAREN'' \<and> parseExpression (consumeToken q) = Inr (v, q1)
        \<and> Type (curToken q1) = ''UNKNOWN''
      \<longrightarrow> parseTerm q = Inl ExpectedRParen"
    by (subst parseTerm.simps) simp
  from ops num ident unknown total x1 start closing show ?thesis by blast
qed

theorem word_classification_witness:
  "getTokenType ''42'' = Inr ''NUMBER''
   \<and> getTokenType ''x1'' = Inr ''IDENT''
   \<and> getTokenType ''?'' = Inr ''UNKNOWN''
   \<and> parseStatement (feed (NewParser \<lparr>tokens = []\<rparr>) [\<lparr>Type = ''UNKNOWN'', Value = ''?''\<rparr>])
       = Inl UnexpectedToken
   \<and> parseTerm (feed (NewParser \<lparr>tokens = []\<rparr>)
         [LPAREN, numberToken ''1'', \<lparr>Type = ''UNKNOWN'', Value = ''?''\<rparr>])
       = Inl ExpectedRParen"
proof -
  let ?P = "NewParser \<lparr>tokens = []\<rparr>"
  let ?u = "\<lparr>Type = ''UNKNOWN'', Value = ''?''\<rparr>"
  let ?p = "feed ?P [?u]"
  let ?q = "feed ?P [LPAREN, numberToken ''1'', ?u]"
  have n1: "''42'' \<notin> {''+'', ''-'', ''*'', ''/'', ''='', ''('', '')''} \<and> Atoi ''42'' \<noteq> None"
    by (simp add: Atoi_def byte_def)
  have n2: "''x1'' \<notin> {''+'', ''-'', ''*'', ''/'', ''='', ''('', '')''} \<and> Atoi ''x1'' = None
      \<and> ''x1'' \<noteq> [] \<and> asciiLetter (hd ''x1'')"
    by (simp add: Atoi_def byte_def asciiLetter_def)
  have n3: "''?'' \<notin> {''+'', ''-'', ''*'', ''/'', ''='', ''('', '')''} \<and> Atoi ''?'' = None
      \<and> ''?'' \<noteq> [] \<and> byte (hd ''?'') < 0x80 \<and> \<not> asciiLetter (hd ''?'')"
    by (simp add: Atoi_def byte_def asciiLetter_def)
  have one: "Atoi ''1'' = Some 1" by (simp add: Atoi_def byte_def)
  have s: "stops [?u]" by (simp add: stops_def isOperator_def)
  have h1: "Type (curToken ?p) = ''UNKNOWN''" by simp
  have h2: "Type (curToken ?q) = ''LPAREN''" by (simp add: LPAREN_def)
  have h3: "parseExpression (consumeToken ?q) = Inr (1, feed ?P [?u])"
    by (simp add: parseExpression_value parseTerm_number one exprLoop_stops s)
  have h4: "Type (curToken (feed ?P [?u])) = ''UNKNOWN''" by simp
  note nth8 = word_classification [where w = "''42''", THEN conjunct2, THEN conjunct2, THEN conjunct2, THEN conjunct2, THEN conjunct2, THEN conjunct2, THEN conjunct2, THEN conjunct1, THEN mp, OF n1]
  note nth9 = word_classification [where w = "''x1''", THEN conjunct2, THEN conjunct2, THEN conjunct2, THEN conjunct2, THEN conjunct2, THEN conjunct2, THEN conjunct2, THEN conjunct2, THEN conjunct1,
      THEN mp, OF n2]
  note rest = word_classification [where w = "''?''" and p = ?p and q = ?q and v = 1
      and ?q1.0 = "feed ?P [?u]", THEN conjunct2, THEN conjunct2, THEN conjunct2, THEN conjunct2, THEN conjunct2, THEN conjunct2, THEN conjunct2, THEN conjunct2, THEN conjunct2]
  note nth10 = rest [THEN conjunct1, THEN mp, OF n3]
  note nth13 = rest [THEN conjunct2, THEN conjunct2, THEN conjunct2, THEN conjunct1, THEN mp,
      OF h1, THEN conjunct2]
  have h234: "Type (curToken ?q) = ''LPAREN'' \<and> parseExpression (consumeToken ?q)
      = Inr (1, feed ?P [?u]) \<and> Type (curToken (feed ?P [?u])) = ''UNKNOWN''"
    using h2 h3 h4 by (intro conjI)
  note nth14 = rest [THEN conjunct2, THEN conjunct2, THEN conjunct2, THEN conjunct2, THEN mp,
      OF h234]
  from nth8 nth9 nth10 nth13 nth14 show ?thesis by (intro conjI)
qed

text \<open>
  C8, as the specification states it, has every \<^verbatim>\<open>UNKNOWN\<close> token fail as an
  unexpected-token error. In \<^verbatim>\<open>( 1 ?\<close> the word \<^verbatim>\<open>?\<close> is \<^verbatim>\<open>UNKNOWN\<close> and the run ends
  in the panic \<^verbatim>\<open>Expected RPAREN\<close>.
\<close>

theorem unknown_token_expected_rparen:
  "tokenizeLine ''( 1 ?'' =
     Inr [\<lparr>Type = ''LPAREN'', Value = ''(''\<rparr>, \<lparr>Type = ''NUMBER'', Value = ''1''\<rparr>,
          \<lparr>Type = ''UNKNOWN'', Value = ''?''\<rparr>]
   \<and> main [''( 1 ?''] = ([], Some ExpectedRParen)
   \<and> main [''( 1 ?''] \<noteq> ([], Some UnexpectedToken)"
  by (simp add: lexer_eval parser_eval)

text \<open>
  The letter test of \<^verbatim>\<open>getTokenType\<close> reads the first byte of the word, not its first
  character. The word that is the multiplication sign U+00D7 alone (bytes C3 97, not a
  letter) is an \<^verbatim>\<open>IDENT\<close>, because the byte C3 read as U+00C3 is a letter; the word that
  is the Hebrew letter U+05D0 alone (bytes D7 90) is \<^verbatim>\<open>UNKNOWN\<close>, because the byte D7
  read as U+00D7 is not.
\<close>

lemma first_byte_decides_letter:
  "DecodeRune [CHR 0xC3, CHR 0x97] = (0xD7, 2)
   \<and> getTokenType [CHR 0xC3, CHR 0x97] = Inr ''IDENT''
   \<and> DecodeRune [CHR 0xD7, CHR 0x90] = (0x5D0, 2)
   \<and> getTokenType [CHR 0xD7, CHR 0x90] = Inr ''UNKNOWN''"
  by code_simp

lemma literalTokens_append:
  "literalTokens (xs @ ys) = literalTokens xs @ literalTokens ys"
  by (induction xs) auto

lemma parseStatement_literals:
  assumes "Atoi s0 = Some n0"
    and "\<forall>(b, s, n) \<in> set lits. Atoi s = Some n"
    and "stops rest"
  shows "parseStatement (feed p (numberToken s0 # literalTokens lits @ rest)) =
           (case leftFold n0 lits of
              Inl e \<Rightarrow> Inl e
            | Inr v \<Rightarrow> Inr (Println v (feed p rest)))"
proof -
  have "parseExpression (feed p (numberToken s0 # literalTokens lits @ rest)) =
          (case leftFold n0 lits of Inl e \<Rightarrow> Inl e | Inr v \<Rightarrow> Inr (v, feed p rest))"
    using assms by (simp add: parseExpression_value parseTerm_number exprLoop_literals)
  then show ?thesis
    by (simp add: parseStatement_def numberToken_def split: sum.splits)
qed

lemma NewParser_as_feed: "NewParser \<lparr>tokens = ts\<rparr> = feed (NewParser \<lparr>tokens = []\<rparr>) ts"
  by (simp add: NewParser_def feed_def consumeToken_def)

subsection \<open>Line boundaries\<close>

text \<open>
  C10. The token sequence of an input is the plain concatenation of the token sequences
  of its lines: nothing in it marks where a line ended. So where a line ends in an
  operator and the next line starts with a literal, the statement goes on across the
  boundary: the literal is folded in, and the statement prints one line. The inputs
  \<^verbatim>\<open>1 +\<close>, \<^verbatim>\<open>2\<close> and \<^verbatim>\<open>1\<close>, \<^verbatim>\<open>+ 2\<close> both print the single line 3, and tokenize as
  the one line \<^verbatim>\<open>1 + 2\<close> does.
\<close>

theorem line_boundaries_not_in_token_stream:
  "(\<exists>tss. list_all2 (\<lambda>line ts. tokenizeLine line = Inr ts) lines tss
          \<and> NewLexer lines = Inr \<lparr>tokens = concat tss\<rparr>)
   \<and> (tokenizeLine l1 = Inr (numberToken s0 # literalTokens lits @ [opToken b])
        \<and> tokenizeLine l2 = Inr (numberToken s # rest)
        \<and> Atoi s0 = Some n0 \<and> list_all (\<lambda>(b, s, n). Atoi s = Some n) lits \<and> Atoi s = Some n
        \<and> stops rest
      \<longrightarrow> NewLexer [l1, l2]
            = Inr \<lparr>tokens = numberToken s0 # literalTokens (lits @ [(b, s, n)]) @ rest\<rparr>
        \<and> parseStatement
              (NewParser \<lparr>tokens = numberToken s0 # literalTokens (lits @ [(b, s, n)]) @ rest\<rparr>)
            = (case leftFold n0 (lits @ [(b, s, n)]) of
                 Inl e \<Rightarrow> Inl e
               | Inr v \<Rightarrow> Inr (Println v (feed (NewParser \<lparr>tokens = []\<rparr>) rest))))
   \<and> main [''1 +'', ''2''] = ([3], None)
   \<and> main [''1'', ''+ 2''] = ([3], None)
   \<and> NewLexer [''1 +'', ''2''] = NewLexer [''1 + 2'']
   \<and> NewLexer [''1'', ''+ 2''] = NewLexer [''1 + 2'']"
proof (intro conjI impI)
  obtain tss where tss: "list_all2 (\<lambda>line ts. tokenizeLine line = Inr ts) lines tss"
    using tokenizeLine_all by blast
  then have "NewLexer lines = Inr \<lparr>tokens = concat tss\<rparr>"
    by (simp add: NewLexer_def tokenizeInput_concat)
  with tss show "\<exists>tss. list_all2 (\<lambda>line ts. tokenizeLine line = Inr ts) lines tss
          \<and> NewLexer lines = Inr \<lparr>tokens = concat tss\<rparr>"
    by blast
next
  assume h: "tokenizeLine l1 = Inr (numberToken s0 # literalTokens lits @ [opToken b])
        \<and> tokenizeLine l2 = Inr (numberToken s # rest)
        \<and> Atoi s0 = Some n0 \<and> list_all (\<lambda>(b, s, n). Atoi s = Some n) lits \<and> Atoi s = Some n
        \<and> stops rest"
  then show "NewLexer [l1, l2]
            = Inr \<lparr>tokens = numberToken s0 # literalTokens (lits @ [(b, s, n)]) @ rest\<rparr>"
    by (simp add: NewLexer_def literalTokens_append)
  from h have all: "\<forall>(b, s, n) \<in> set (lits @ [(b, s, n)]). Atoi s = Some n"
    by (auto simp: list_all_iff)
  from h have "Atoi s0 = Some n0" "stops rest" by simp_all
  from parseStatement_literals [OF this(1) all this(2)]
  show "parseStatement
              (NewParser \<lparr>tokens = numberToken s0 # literalTokens (lits @ [(b, s, n)]) @ rest\<rparr>)
            = (case leftFold n0 (lits @ [(b, s, n)]) of
                 Inl e \<Rightarrow> Inl e
               | Inr v \<Rightarrow> Inr (Println v (feed (NewParser \<lparr>tokens = []\<rparr>) rest)))"
    by (subst NewParser_as_feed) simp
next
  show "main [''1 +'', ''2''] = ([3], None)" by (simp add: lexer_eval parser_eval)
next
  show "main [''1'', ''+ 2''] = ([3], None)" by (simp add: lexer_eval parser_eval)
next
  show "NewLexer [''1 +'', ''2''] = NewLexer [''1 + 2'']" by (simp add: lexer_eval)
next
  show "NewLexer [''1'', ''+ 2''] = NewLexer [''1 + 2'']" by (simp add: lexer_eval)
qed

theorem line_boundaries_not_in_token_stream_witness:
  "tokenizeLine ''1 +'' = Inr (numberToken ''1'' # literalTokens [] @ [opToken Add])
   \<and> tokenizeLine ''2'' = Inr (numberToken ''2'' # [])
   \<and> Atoi ''1'' = Some 1 \<and> Atoi ''2'' = Some 2 \<and> stops []
   \<and> NewLexer [''1 +'', ''2'']
       = Inr \<lparr>tokens = numberToken ''1'' # literalTokens ([] @ [(Add, ''2'', 2)]) @ []\<rparr>
   \<and> parseStatement
         (NewParser \<lparr>tokens = numberToken ''1'' # literalTokens ([] @ [(Add, ''2'', 2)]) @ []\<rparr>)
       = Inr (Println 3 (feed (NewParser \<lparr>tokens = []\<rparr>) []))"
proof -
  have h1: "tokenizeLine ''1 +'' = Inr (numberToken ''1'' # literalTokens [] @ [opToken Add])"
    by (simp add: lexer_eval numberToken_def)
  have h2: "tokenizeLine ''2'' = Inr (numberToken ''2'' # [])"
    by (simp add: lexer_eval numberToken_def)
  have h3: "Atoi ''1'' = Some 1" "Atoi ''2'' = Some 2" by (simp_all add: Atoi_def byte_def)
  have h4: "list_all (\<lambda>(b, s, n). Atoi s = Some n) []" by simp
  have h5: "stops []" by (simp add: stops_def)
  from line_boundaries_not_in_token_stream [where ?l1.0 = "''1 +''" and ?l2.0 = "''2''"
      and ?s0.0 = "''1''" and lits = "[]" and b = Add and s = "''2''" and rest = "[]"
      and ?n0.0 = 1 and n = 2] h1 h2 h3 h4 h5
  have "NewLexer [''1 +'', ''2'']
       = Inr \<lparr>tokens = numberToken ''1'' # literalTokens ([] @ [(Add, ''2'', 2)]) @ []\<rparr>
   \<and> parseStatement
         (NewParser \<lparr>tokens = numberToken ''1'' # literalTokens ([] @ [(Add, ''2'', 2)]) @ []\<rparr>)
       = (case leftFold 1 ([] @ [(Add, ''2'', 2)]) of
            Inl e \<Rightarrow> Inl e
          | Inr v \<Rightarrow> Inr (Println v (feed (NewParser \<lparr>tokens = []\<rparr>) [])))"
    by blast
  then show ?thesis using h1 h2 h3 h5 by simp
qed

end
